theory Spec2Isabelle
  imports Complex_Main "HOL-Library.Word" "HOL-Library.Log_Nat"
begin

section \<open>Single-precision arithmetic\<close>

text \<open>
  The animations of \<^verbatim>\<open>LightingEvents.h\<close> compute in C \<^verbatim>\<open>float\<close>. A float value is
  modelled by the rational number it denotes, and every operation rounds its exact result
  to the nearest IEEE binary32 value, ties to even (24 significant bits, least exponent
  \<open>-126\<close>, so subnormals are covered). Infinities and NaN are not modelled: every float of
  this program is computed from a 32-bit millisecond count and the pixel counts, far below
  the overflow threshold of the format. Values of type \<^verbatim>\<open>int\<close> are modelled by unbounded
  integers: they are pixel counts and indices, and differences and halves of them.
\<close>

type_synonym float32 = rat

definition ilog2 :: "rat \<Rightarrow> int" where
  \<comment> \<open>for \<open>0 < x\<close>: the exponent \<open>e\<close> with \<open>2 ^ e \<le> x < 2 ^ (e + 1)\<close>\<close>
  "ilog2 x = (let (a, b) = quotient_of x;
                  d = bitlen a - bitlen b
              in if 2 powi d \<le> x then d else d - 1)"

definition round_even :: "rat \<Rightarrow> int" where
  "round_even x = (let f = \<lfloor>x\<rfloor>; r = x - of_int f in
     if r < 1 / 2 then f else if 1 / 2 < r then f + 1 else if even f then f else f + 1)"

definition f32 :: "rat \<Rightarrow> float32" where
  "f32 x = (if x = 0 then 0 else
     let e = max (ilog2 \<bar>x\<bar>) (- 126); u = 2 powi (e - 23)
     in of_int (round_even (x / u)) * u)"

definition fadd :: "float32 \<Rightarrow> float32 \<Rightarrow> float32" where
  "fadd x y = f32 (x + y)"

definition fsub :: "float32 \<Rightarrow> float32 \<Rightarrow> float32" where
  "fsub x y = f32 (x - y)"

definition fmul :: "float32 \<Rightarrow> float32 \<Rightarrow> float32" where
  "fmul x y = f32 (x * y)"

definition fdiv :: "float32 \<Rightarrow> float32 \<Rightarrow> float32" where
  "fdiv x y = f32 (x / y)"

definition float_of_int :: "int \<Rightarrow> float32" where
  \<comment> \<open>conversion of an integer operand to \<^verbatim>\<open>float\<close>\<close>
  "float_of_int n = f32 (of_int n)"

definition int_of_float :: "float32 \<Rightarrow> int" where
  \<comment> \<open>conversion of a \<^verbatim>\<open>float\<close> to an integer type: the fraction is discarded\<close>
  "int_of_float x = (if 0 \<le> x then \<lfloor>x\<rfloor> else \<lceil>x\<rceil>)"

definition fmin :: "float32 \<Rightarrow> float32 \<Rightarrow> float32" where
  \<comment> \<open>Arduino's \<^verbatim>\<open>min(a, b)\<close>, that is \<^verbatim>\<open>a < b ? a : b\<close>, with each argument evaluated once
      (where \<^verbatim>\<open>min\<close> is a macro, the smaller argument is evaluated a second time)\<close>
  "fmin a b = (if a < b then a else b)"

definition fmod :: "float32 \<Rightarrow> float32 \<Rightarrow> float32" where
  \<comment> \<open>C's \<^verbatim>\<open>fmod\<close>: the remainder of the division truncated towards zero; it is exact\<close>
  "fmod x y = x - of_int (int_of_float (x / y)) * y"

definition cdiv :: "int \<Rightarrow> int \<Rightarrow> int" where
  \<comment> \<open>C's integer division, truncating towards zero\<close>
  "cdiv a b = sgn a * sgn b * (\<bar>a\<bar> div \<bar>b\<bar>)"

section \<open>The pixel sink, the clock and the configuration\<close>

text \<open>
  The strip (\<^verbatim>\<open>Adafruit_NeoPixel\<close>), \<^verbatim>\<open>millis()\<close> and \<^verbatim>\<open>delay()\<close> belong to the platform.
  The world records what the program does to them: the colour buffer of the strip, indexed
  by the \<^verbatim>\<open>uint16_t\<close> pixel index of \<^verbatim>\<open>setPixelColor\<close> and holding 32-bit colours, the
  sequence of calls made (oldest first), and the clock. \<^verbatim>\<open>setPixelColor(n, c)\<close> stores \<open>c\<close>
  at index \<open>n\<close>; \<^verbatim>\<open>show()\<close> and \<^verbatim>\<open>delay(ms)\<close> leave the buffer as it is. Each call of
  \<^verbatim>\<open>millis()\<close> returns the next reading of the clock, whatever it is (the reading number
  \<open>reads w\<close> of the world \<open>w\<close>); no assumption is made on how much time passes between
  two readings.
\<close>

datatype call = SetPixelColor "16 word" "32 word" | Show | Delay "32 word"

record world =
  pixels :: "16 word \<Rightarrow> 32 word"
  calls :: "call list"
  clock :: "nat \<Rightarrow> 32 word"
  reads :: nat

definition setPixelColor :: "16 word \<Rightarrow> 32 word \<Rightarrow> world \<Rightarrow> world" where
  "setPixelColor n c w = w\<lparr>pixels := (pixels w)(n := c), calls := calls w @ [SetPixelColor n c]\<rparr>"

definition strip_show :: "world \<Rightarrow> world" where
  "strip_show w = w\<lparr>calls := calls w @ [Show]\<rparr>"

definition delay :: "32 word \<Rightarrow> world \<Rightarrow> world" where
  "delay ms w = w\<lparr>calls := calls w @ [Delay ms]\<rparr>"

definition millis :: "world \<Rightarrow> 32 word \<times> world" where
  "millis w = (clock w (reads w), w\<lparr>reads := Suc (reads w)\<rparr>)"

text \<open>
  The pixel counts and the colours are macros defined outside \<^verbatim>\<open>LightingEvents.h\<close>; they
  are parameters of the model.
\<close>

record config =
  NUMBER_USED_PIXELS :: nat
  NUMBER_TURN_PIXELS :: nat
  COLOR_BLACK :: "32 word"
  COLOR_WHITE :: "32 word"
  COLOR_RED :: "32 word"
  COLOR_DARK_RED :: "32 word"
  COLOR_BLUE :: "32 word"
  COLOR_AMBER :: "32 word"

datatype fault = AssertionFailed | DivisionByZero | IndexOutOfBounds

section \<open>Loops\<close>

text \<open>\<^verbatim>\<open>for (int i = i0; i < n; i++) body(i);\<close>\<close>

function for_int :: "nat \<Rightarrow> nat \<Rightarrow> (nat \<Rightarrow> 'w \<Rightarrow> 'w) \<Rightarrow> 'w \<Rightarrow> 'w" where
  "for_int i n body w = (if i < n then for_int (Suc i) n body (body i w) else w)"
  by pat_completeness auto
termination
  by (relation "measure (\<lambda>(i, n, body, w). n - i)") auto

text \<open>
  \<^verbatim>\<open>for (uint16_t i = i0; cond(i); i++) body(i);\<close> The counter wraps from 65535 to 0, so
  the loop need not end: not returning is the value \<open>None\<close>.
\<close>

partial_function (option) for_uint16 ::
  "(16 word \<Rightarrow> bool) \<Rightarrow> (16 word \<Rightarrow> 'w \<Rightarrow> 'w) \<Rightarrow> 16 word \<Rightarrow> 'w \<Rightarrow> 'w option" where
  "for_uint16 cond body i w = (if cond i then for_uint16 cond body (i + 1) (body i w) else Some w)"

declare for_uint16.simps [code]

section \<open>LightingEvent\<close>

record LightingEvent =
  eventStart :: "32 word"
  active :: bool

definition LightingEvent :: LightingEvent where
  \<comment> \<open>the constructor\<close>
  "LightingEvent = \<lparr>eventStart = 0, active = False\<rparr>"

definition TimeElapsedTotal :: "'a LightingEvent_scheme \<Rightarrow> world \<Rightarrow> float32 \<times> world" where
  \<comment> \<open>lines 38 to 41: the difference is an \<^verbatim>\<open>unsigned long\<close>, 32 bits wide, converted to float\<close>
  "TimeElapsedTotal ev w =
     (let (now, w') = millis w
      in (fdiv (float_of_int (uint (now - eventStart ev))) 1000, w'))"

definition GetActive :: "'a LightingEvent_scheme \<Rightarrow> bool" where
  "GetActive ev = active ev"

definition Begin :: "'a LightingEvent_scheme \<Rightarrow> world \<Rightarrow> 'a LightingEvent_scheme \<times> world" where
  "Begin ev w = (let (now, w') = millis w in (ev\<lparr>active := True, eventStart := now\<rparr>, w'))"

definition End :: "config \<Rightarrow> 'a LightingEvent_scheme \<Rightarrow> world \<Rightarrow> 'a LightingEvent_scheme \<times> world" where
  \<comment> \<open>lines 54 to 60; no event class overrides it\<close>
  "End cfg ev w =
     (ev\<lparr>active := False\<rparr>,
      strip_show (for_int 0 (NUMBER_USED_PIXELS cfg)
                    (\<lambda>i. setPixelColor (of_nat i) (COLOR_BLACK cfg)) w))"

section \<open>BackupEvent\<close>

definition BackupEvent_BLOOM_TIME :: float32 where
  "BackupEvent_BLOOM_TIME = f32 (1 / 4)"

definition BackupEvent_Draw :: "config \<Rightarrow> 'a LightingEvent_scheme \<Rightarrow> world \<Rightarrow> world" where
  \<comment> \<open>lines 75 to 96\<close>
  "BackupEvent_Draw cfg ev w =
     (if \<not> GetActive ev then w
      else
        let (t, w1) = TimeElapsedTotal ev w;
            fPercentComplete = fmin (fdiv t BackupEvent_BLOOM_TIME) 1;
            cLEDs = int_of_float (fmul (float_of_int (int (NUMBER_USED_PIXELS cfg))) fPercentComplete);
            iFirst = cdiv (int (NUMBER_USED_PIXELS cfg)) 2 - cdiv cLEDs 2;
            iLast = cdiv (int (NUMBER_USED_PIXELS cfg)) 2 + cdiv cLEDs 2
        in strip_show
             (for_int 0 (NUMBER_USED_PIXELS cfg)
                (\<lambda>i. if int i < iFirst \<or> iLast < int i
                     then setPixelColor (of_nat i) (COLOR_BLACK cfg)
                     else setPixelColor (of_nat i) (COLOR_WHITE cfg)) w1))"

section \<open>BrakingEvent\<close>

definition BRAKE_STROBE_DURATION :: float32 where
  "BRAKE_STROBE_DURATION = f32 (1 / 2)"

definition BLOOM_START_SIZE :: float32 where
  "BLOOM_START_SIZE = f32 (1 / 10)"

definition BrakingEvent_BLOOM_TIME :: float32 where
  "BrakingEvent_BLOOM_TIME = f32 (1 / 2)"

definition pctComplete :: "float32 \<Rightarrow> float32" where
  \<comment> \<open>lines 125 and 135\<close>
  "pctComplete timeElapsed = fmin 1 (fadd (fdiv timeElapsed BrakingEvent_BLOOM_TIME) BLOOM_START_SIZE)"

definition unusedEachEnd :: "config \<Rightarrow> float32 \<Rightarrow> float32" where
  \<comment> \<open>lines 126 and 136\<close>
  "unusedEachEnd cfg timeElapsed =
     fdiv (fmul (fsub 1 (pctComplete timeElapsed)) (float_of_int (int (NUMBER_USED_PIXELS cfg))))
          (float_of_int 2)"

definition draw_bar :: "config \<Rightarrow> float32 \<Rightarrow> 32 word \<Rightarrow> world \<Rightarrow> world option" where
  \<comment> \<open>the loops of lines 128 and 138: the counter starts at the margin converted to
      \<^verbatim>\<open>uint16_t\<close>, and is compared, as a float, with the float \<open>NUMBER_USED_PIXELS - margin\<close>\<close>
  "draw_bar cfg margin color w =
     for_uint16 (\<lambda>i. float_of_int (uint i) < fsub (float_of_int (int (NUMBER_USED_PIXELS cfg))) margin)
                (\<lambda>i. setPixelColor i color)
                (word_of_int (int_of_float margin)) w"

definition BrakingEvent_Draw :: "config \<Rightarrow> 'a LightingEvent_scheme \<Rightarrow> world \<Rightarrow> world option" where
  \<comment> \<open>lines 117 to 150; \<^verbatim>\<open>TimeElapsedTotal()\<close> is called at lines 122, 124 and 134\<close>
  "BrakingEvent_Draw cfg ev w =
     (if \<not> GetActive ev then Some w
      else
        let (t, w1) = TimeElapsedTotal ev w in
        if t < BRAKE_STROBE_DURATION then
          let (timeElapsed, w2) = TimeElapsedTotal ev w1 in
          case draw_bar cfg (unusedEachEnd cfg timeElapsed) (COLOR_RED cfg) w2 of
            None \<Rightarrow> None
          | Some w3 \<Rightarrow>
              let w4 = delay 30 (strip_show w3);
                  (timeElapsed', w5) = TimeElapsedTotal ev w4
              in (case draw_bar cfg (unusedEachEnd cfg timeElapsed') (COLOR_DARK_RED cfg) w5 of
                    None \<Rightarrow> None
                  | Some w6 \<Rightarrow> Some (delay 20 (strip_show w6)))
        else
          (case for_uint16 (\<lambda>i. uint i < int (NUMBER_USED_PIXELS cfg))
                           (\<lambda>i. setPixelColor i (COLOR_RED cfg)) 0 w1 of
             None \<Rightarrow> None
           | Some w2 \<Rightarrow> Some (strip_show w2)))"

section \<open>SignalEvent\<close>

datatype SIGNAL_STYLE = INVALID | LEFT_TURN | RIGHT_TURN | HAZARD

record SignalEvent = LightingEvent +
  style :: SIGNAL_STYLE

definition SequentialBloomStart :: float32 where
  "SequentialBloomStart = f32 0"

definition SequentialBloomTime :: float32 where
  "SequentialBloomTime = f32 (1 / 2)"

definition SequentialHoldStart :: float32 where
  "SequentialHoldStart = fadd SequentialBloomStart SequentialBloomTime"

definition SequentialHoldTime :: float32 where
  "SequentialHoldTime = f32 (1 / 4)"

definition SequentialFadeStart :: float32 where
  "SequentialFadeStart = fadd SequentialHoldStart SequentialHoldTime"

definition SequentialFadeTime :: float32 where
  "SequentialFadeTime = f32 (1 / 8)"

definition SequentialOffStart :: float32 where
  "SequentialOffStart = fadd SequentialFadeStart SequentialFadeTime"

definition SequentialOffTime :: float32 where
  "SequentialOffTime = f32 (1 / 4)"

definition SequentialCycleTime :: float32 where
  "SequentialCycleTime = fadd SequentialOffStart SequentialOffTime"

definition SetTurnLED :: "config \<Rightarrow> SIGNAL_STYLE \<Rightarrow> nat \<Rightarrow> 32 word \<Rightarrow> world \<Rightarrow> world" where
  \<comment> \<open>lines 190 to 197; the \<^verbatim>\<open>int\<close> index is converted to the \<^verbatim>\<open>uint16_t\<close> pixel index\<close>
  "SetTurnLED cfg st i color w =
     (let w1 = (if st = LEFT_TURN \<or> st = HAZARD then setPixelColor (of_nat i) color w else w)
      in if st = RIGHT_TURN \<or> st = HAZARD
         then setPixelColor (word_of_int (int (NUMBER_USED_PIXELS cfg) - 1 - int i)) color w1
         else w1)"

definition SignalEvent_Draw :: "config \<Rightarrow> 'a SignalEvent_scheme \<Rightarrow> world \<Rightarrow> fault + world" where
  \<comment> \<open>lines 214 to 260; a failing \<^verbatim>\<open>assert\<close> (line 246) is the fault \<open>AssertionFailed\<close>\<close>
  "SignalEvent_Draw cfg ev w =
     (if \<not> GetActive ev then Inr w
      else
        let (t, w1) = TimeElapsedTotal ev w;
            fCyclePosition = fmod t SequentialCycleTime;
            n = NUMBER_TURN_PIXELS cfg
        in
        if SequentialOffStart < fCyclePosition then
          Inr (strip_show (for_int 0 n (\<lambda>i. SetTurnLED cfg (style ev) i (COLOR_BLACK cfg)) w1))
        else if SequentialFadeStart < fCyclePosition then
          let fCyclePosition' = fsub fCyclePosition SequentialFadeStart;
              pct = fdiv fCyclePosition' SequentialFadeTime;
              cPixelsLit = int_of_float (fsub (float_of_int (int n)) (fmul (float_of_int (int n)) pct))
          in Inr (strip_show (for_int 0 n
                   (\<lambda>i. if int i < cPixelsLit
                        then SetTurnLED cfg (style ev) i (COLOR_AMBER cfg)
                        else SetTurnLED cfg (style ev) i (COLOR_BLACK cfg)) w1))
        else if SequentialHoldStart < fCyclePosition then
          Inr (strip_show (for_int 0 n (\<lambda>i. SetTurnLED cfg (style ev) i (COLOR_AMBER cfg)) w1))
        else if \<not> fCyclePosition \<le> SequentialBloomTime then Inl AssertionFailed
        else
          let pct = fdiv fCyclePosition SequentialBloomTime;
              cPixelsLit = int_of_float (fmul (float_of_int (int n)) pct)
          in Inr (strip_show (for_int 0 n
                   (\<lambda>i. if int n - cPixelsLit \<le> int i
                        then SetTurnLED cfg (style ev) i (COLOR_AMBER cfg)
                        else SetTurnLED cfg (style ev) i (COLOR_BLACK cfg)) w1)))"

section \<open>PoliceLightBar\<close>

record PoliceLightBarState =
  sectionColor :: "32 word list"
  duration :: "32 word"

definition PoliceBarStates1 :: "config \<Rightarrow> PoliceLightBarState list" where
  \<comment> \<open>lines 305 to 318\<close>
  "PoliceBarStates1 cfg =
     (let B = COLOR_BLUE cfg; R = COLOR_RED cfg; W = COLOR_WHITE cfg in
      [\<lparr>sectionColor = [B, B, R, R, B, B, R, R], duration = 200\<rparr>,
       \<lparr>sectionColor = [R, R, B, B, R, R, B, B], duration = 200\<rparr>,
       \<lparr>sectionColor = [W, B, R, R, B, B, R, R], duration = 20\<rparr>,
       \<lparr>sectionColor = [B, B, R, R, B, B, R, W], duration = 20\<rparr>,
       \<lparr>sectionColor = [B, W, R, R, B, B, R, R], duration = 20\<rparr>,
       \<lparr>sectionColor = [B, B, R, R, B, B, W, R], duration = 20\<rparr>,
       \<lparr>sectionColor = [B, B, W, R, B, B, R, R], duration = 20\<rparr>,
       \<lparr>sectionColor = [B, B, R, R, B, W, R, R], duration = 20\<rparr>,
       \<lparr>sectionColor = [B, B, R, W, B, B, R, R], duration = 20\<rparr>,
       \<lparr>sectionColor = [B, B, R, R, W, B, R, R], duration = 20\<rparr>,
       \<lparr>sectionColor = [R, R, B, B, R, R, B, B], duration = 200\<rparr>])"

definition iSection :: "nat \<Rightarrow> 16 word \<Rightarrow> nat" where
  \<comment> \<open>line 295, for a non-zero section size\<close>
  "iSection sectionSize i = unat i div sectionSize"

text \<open>
  The inner loop of \<^verbatim>\<open>PoliceLightBar::Draw\<close> (lines 293 to 298). Dividing by a zero
  section size and reading \<^verbatim>\<open>sectionColor\<close> beyond its 8 entries are undefined in C++:
  they are faults of the model.
\<close>

partial_function (option) police_pixels ::
  "config \<Rightarrow> PoliceLightBarState \<Rightarrow> nat \<Rightarrow> 16 word \<Rightarrow> world \<Rightarrow> (fault + world) option" where
  "police_pixels cfg row sectionSize i w =
     (if uint i < int (NUMBER_USED_PIXELS cfg) then
        if sectionSize = 0 then Some (Inl DivisionByZero)
        else if 8 \<le> iSection sectionSize i then Some (Inl IndexOutOfBounds)
        else police_pixels cfg row sectionSize (i + 1)
               (setPixelColor i (sectionColor row ! iSection sectionSize i) w)
      else Some (Inr w))"

declare police_pixels.simps [code]

text \<open>The loop over the rows of the table (lines 291 to 301).\<close>

fun police_rows ::
  "config \<Rightarrow> nat \<Rightarrow> PoliceLightBarState list \<Rightarrow> world \<Rightarrow> (fault + world) option" where
  "police_rows cfg sectionSize [] w = Some (Inr w)"
| "police_rows cfg sectionSize (row # rows) w =
     (case police_pixels cfg row sectionSize 0 w of
        None \<Rightarrow> None
      | Some (Inl f) \<Rightarrow> Some (Inl f)
      | Some (Inr w') \<Rightarrow> police_rows cfg sectionSize rows (delay (duration row) (strip_show w')))"

definition PoliceLightBar_Draw ::
  "config \<Rightarrow> 'a LightingEvent_scheme \<Rightarrow> world \<Rightarrow> (fault + world) option" where
  \<comment> \<open>lines 284 to 302\<close>
  "PoliceLightBar_Draw cfg ev w =
     (if \<not> GetActive ev then Some (Inr w)
      else police_rows cfg (NUMBER_USED_PIXELS cfg div 8) (PoliceBarStates1 cfg) w)"

section \<open>Concrete inputs for the examples\<close>

text \<open>
  A strip of 8 usable pixels with 3 turn-signal pixels at each end, and strips of 5, 10 and
  17 usable pixels. The colour values are arbitrary, pairwise distinct 24-bit RGB values.
\<close>

definition strip8 :: config where
  "strip8 = \<lparr>NUMBER_USED_PIXELS = 8, NUMBER_TURN_PIXELS = 3, COLOR_BLACK = 0x000000,
              COLOR_WHITE = 0xFFFFFF, COLOR_RED = 0xFF0000, COLOR_DARK_RED = 0x400000,
              COLOR_BLUE = 0x0000FF, COLOR_AMBER = 0xFFBF00\<rparr>"

definition strip17 :: config where
  "strip17 = strip8\<lparr>NUMBER_USED_PIXELS := 17\<rparr>"

definition world_at :: "32 word \<Rightarrow> world" where
  \<comment> \<open>a dark strip, no call made yet, and a clock that reads \<open>t\<close> milliseconds\<close>
  "world_at t = \<lparr>pixels = (\<lambda>n. 0), calls = [], clock = (\<lambda>k. t), reads = 0\<rparr>"

definition event_on :: LightingEvent where
  \<comment> \<open>an event begun at clock reading 0\<close>
  "event_on = \<lparr>eventStart = 0, active = True\<rparr>"

definition hazard_on :: SignalEvent where
  "hazard_on = \<lparr>eventStart = 0, active = True, style = HAZARD\<rparr>"

definition hazard_off :: SignalEvent where
  "hazard_off = \<lparr>eventStart = 0, active = False, style = HAZARD\<rparr>"

definition strip5 :: config where
  "strip5 = strip8\<lparr>NUMBER_USED_PIXELS := 5\<rparr>"

definition strip10 :: config where
  "strip10 = strip8\<lparr>NUMBER_USED_PIXELS := 10\<rparr>"

definition world_readings :: "32 word \<Rightarrow> 32 word \<Rightarrow> 32 word \<Rightarrow> world" where
  \<comment> \<open>a dark strip, no call made yet, and a clock whose first three readings are \<open>a\<close>, \<open>b\<close> and
      \<open>c\<close> milliseconds (and \<open>c\<close> from then on)\<close>
  "world_readings a b c =
     \<lparr>pixels = (\<lambda>n. 0), calls = [], clock = (\<lambda>k. if k = 0 then a else if k = 1 then b else c),
      reads = 0\<rparr>"

definition event_on_at :: "32 word \<Rightarrow> LightingEvent" where
  \<comment> \<open>an event begun at clock reading \<open>s\<close>\<close>
  "event_on_at s = \<lparr>eventStart = s, active = True\<rparr>"

section \<open>Properties of the rounding\<close>

lemma ilog2_bounds:
  assumes "0 < x"
  shows "2 powi (ilog2 x) \<le> x \<and> x < 2 powi (ilog2 x + 1)"
proof -
  obtain a b where q: "quotient_of x = (a, b)" by (cases "quotient_of x")
  have b: "0 < b" using quotient_of_denom_pos[OF q] .
  have x: "x = of_int a / of_int b" using quotient_of_div[OF q] .
  have a: "0 < a" using assms b x by (simp add: zero_less_divide_iff)
  define la where "la = floorlog 2 (nat a)"
  define lb where "lb = floorlog 2 (nat b)"
  have la: "2 ^ (la - 1) \<le> nat a" "nat a < 2 ^ la"
    using floorlog_bounds[of "nat a" 2] a by (auto simp: la_def)
  have lb: "2 ^ (lb - 1) \<le> nat b" "nat b < 2 ^ lb"
    using floorlog_bounds[of "nat b" 2] b by (auto simp: lb_def)
  have la0: "0 < la" using la(2) a by (cases la) auto
  have lb0: "0 < lb" using lb(2) b by (cases lb) auto
  have ra: "(2::rat) powi (int la - 1) \<le> of_int a" "of_int a < (2::rat) powi (int la)"
  proof -
    have "of_nat (2 ^ (la - 1)) \<le> (of_nat (nat a) :: rat)" using la(1) of_nat_le_iff by blast
    then show "(2::rat) powi (int la - 1) \<le> of_int a"
      using a la0 by (simp add: power_int_def nat_diff_distrib')
    have "(of_nat (nat a) :: rat) < of_nat (2 ^ la)" using la(2) of_nat_less_iff by blast
    then show "of_int a < (2::rat) powi (int la)" using a by simp
  qed
  have rb: "(2::rat) powi (int lb - 1) \<le> of_int b" "of_int b < (2::rat) powi (int lb)"
  proof -
    have "of_nat (2 ^ (lb - 1)) \<le> (of_nat (nat b) :: rat)" using lb(1) of_nat_le_iff by blast
    then show "(2::rat) powi (int lb - 1) \<le> of_int b"
      using b lb0 by (simp add: power_int_def nat_diff_distrib')
    have "(of_nat (nat b) :: rat) < of_nat (2 ^ lb)" using lb(2) of_nat_less_iff by blast
    then show "of_int b < (2::rat) powi (int lb)" using b by simp
  qed
  define d where "d = int la - int lb"
  have bpos: "(0::rat) < of_int b" using b by simp
  have up: "x < 2 powi (d + 1)"
  proof -
    have "of_int a < (2::rat) powi (d + 1) * 2 powi (int lb - 1)"
      using ra(2) by (simp add: d_def flip: power_int_add)
    also have "\<dots> \<le> 2 powi (d + 1) * of_int b"
      using rb(1) by (simp add: mult_left_mono)
    finally show ?thesis using bpos by (simp add: x pos_divide_less_eq)
  qed
  have lo: "2 powi (d - 1) \<le> x"
  proof -
    have "(2::rat) powi (d - 1) * of_int b \<le> 2 powi (d - 1) * 2 powi (int lb)"
      using rb(2) by (simp add: mult_left_mono)
    also have "\<dots> = 2 powi (d - 1 + int lb)"
      by (rule power_int_add [symmetric]) simp
    also have "\<dots> = 2 powi (int la - 1)"
      by (simp add: d_def)
    also have "\<dots> \<le> of_int a" by (rule ra(1))
    finally show ?thesis using bpos by (simp add: x pos_le_divide_eq)
  qed
  have il: "ilog2 x = (if 2 powi d \<le> x then d else d - 1)"
    by (simp add: ilog2_def q la_def lb_def d_def Let_def bitlen_def)
  show ?thesis
  proof (cases "2 powi d \<le> x")
    case True
    then show ?thesis using up il by simp
  next
    case False
    then show ?thesis using lo il by simp
  qed
qed


lemma round_even_of_int [simp]: "round_even (of_int n) = n"
  by (simp add: round_even_def)

lemma round_even_floor: "\<lfloor>x\<rfloor> \<le> round_even x \<and> round_even x \<le> \<lfloor>x\<rfloor> + 1"
  by (simp add: round_even_def Let_def)

lemma round_even_mono: "x \<le> y \<Longrightarrow> round_even x \<le> round_even y"
proof -
  assume xy: "x \<le> y"
  then have fl: "\<lfloor>x\<rfloor> \<le> \<lfloor>y\<rfloor>" by (rule floor_mono)
  show ?thesis
  proof (cases "\<lfloor>x\<rfloor> = \<lfloor>y\<rfloor>")
    case True
    then have "x - of_int \<lfloor>x\<rfloor> \<le> y - of_int \<lfloor>y\<rfloor>" using xy by simp
    then show ?thesis using True by (auto simp: round_even_def Let_def)
  next
    case False
    then have "\<lfloor>x\<rfloor> + 1 \<le> \<lfloor>y\<rfloor>" using fl by simp
    then show ?thesis using round_even_floor[of x] round_even_floor[of y] by linarith
  qed
qed

lemma round_even_minus: "round_even (- x) = - round_even x"
proof (cases "x = of_int \<lfloor>x\<rfloor>")
  case True
  then obtain n where "x = of_int n" ..
  then show ?thesis by (simp flip: of_int_minus)
next
  case False
  then have fl: "\<lfloor>- x\<rfloor> = - \<lfloor>x\<rfloor> - 1"
    by (metis ceiling_altdef ceiling_def minus_diff_eq uminus_add_conv_diff minus_minus)
  have r: "0 < x - of_int \<lfloor>x\<rfloor>" using False
    by (metis floor_correct less_eq_rat_def diff_gt_0_iff_gt)
  show ?thesis
    using r by (auto simp: round_even_def Let_def fl)
qed


lemma pow2_less_imp: "(2::rat) powi a < 2 powi b \<Longrightarrow> a < b"
  using power_int_increasing [of b a "2::rat"] by (cases "a < b") auto

lemma pow2_split: "(2::rat) powi (a + b) = 2 powi a * 2 powi b"
  by (rule power_int_add) simp

lemma pow2_mult_eq: "a + b = c \<Longrightarrow> (2::rat) powi a * 2 powi b = 2 powi c"
  using pow2_split [of a b] by simp

lemma ilog2_mono: "0 < x \<Longrightarrow> x \<le> y \<Longrightarrow> ilog2 x \<le> ilog2 y"
proof -
  assume x: "0 < x" and xy: "x \<le> y"
  then have y: "0 < y" by simp
  have "2 powi (ilog2 x) < (2::rat) powi (ilog2 y + 1)"
    using ilog2_bounds[OF x] ilog2_bounds[OF y] xy by linarith
  then show ?thesis using pow2_less_imp by fastforce
qed

lemma f32_minus: "f32 (- x) = - f32 x"
  by (simp add: f32_def Let_def round_even_minus)

lemma f32_pos:
  "0 < x \<Longrightarrow> f32 x = of_int (round_even (x / 2 powi (max (ilog2 x) (- 126) - 23))) * 2 powi (max (ilog2 x) (- 126) - 23)"
  by (simp add: f32_def Let_def)

lemma f32_nonneg: "0 \<le> x \<Longrightarrow> 0 \<le> f32 x"
proof (cases "x = 0")
  case True
  then show ?thesis by (simp add: f32_def)
next
  case False
  assume "0 \<le> x"
  with False have x: "0 < x" by simp
  define u :: rat where "u = 2 powi (max (ilog2 x) (- 126) - 23)"
  have u: "0 < u" by (simp add: u_def)
  have "0 \<le> x / u" using x u by simp
  then have "0 \<le> \<lfloor>x / u\<rfloor>" by simp
  then have "0 \<le> round_even (x / u)" using round_even_floor[of "x / u"] by linarith
  then show ?thesis using u by (simp add: f32_pos[OF x] flip: u_def)
qed

lemma f32_upper:
  assumes x: "0 < x"
  shows "f32 x \<le> 2 powi (max (ilog2 x) (- 126) + 1)"
proof -
  define e where "e = max (ilog2 x) (- 126)"
  define u :: rat where "u = 2 powi (e - 23)"
  have u: "0 < u" by (simp add: u_def)
  have "x < 2 powi (ilog2 x + 1)" using ilog2_bounds[OF x] by simp
  also have "\<dots> \<le> 2 powi (e + 1)" by (rule power_int_increasing) (simp_all add: e_def)
  also have "\<dots> = 2 powi 24 * u" unfolding u_def by (rule pow2_mult_eq [symmetric]) simp
  finally have "x / u \<le> of_int (2 ^ 24)" using u by (simp add: pos_divide_le_eq)
  then have "round_even (x / u) \<le> 2 ^ 24" using round_even_mono round_even_of_int by metis
  then have "(of_int (round_even (x / u)) :: rat) \<le> of_int (2 ^ 24)" by (simp only: of_int_le_iff)
  then have "of_int (round_even (x / u)) * u \<le> 2 powi 24 * u" using u by simp
  also have "\<dots> = 2 powi (e + 1)" unfolding u_def by (rule pow2_mult_eq) simp
  finally show ?thesis by (simp only: f32_pos[OF x] e_def u_def)
qed

lemma f32_lower:
  assumes x: "0 < x" and n: "- 126 \<le> ilog2 x"
  shows "2 powi (ilog2 x) \<le> f32 x"
proof -
  define e where "e = ilog2 x"
  define u :: rat where "u = 2 powi (e - 23)"
  have e: "max (ilog2 x) (- 126) = e" using n by (simp add: e_def)
  have u: "0 < u" by (simp add: u_def)
  have eu: "2 powi e = 2 powi 23 * u" unfolding u_def by (rule pow2_mult_eq [symmetric]) simp
  have "2 powi e \<le> x" using ilog2_bounds[OF x] by (simp add: e_def)
  then have "of_int (2 ^ 23) \<le> x / u" using u by (simp add: pos_le_divide_eq eu)
  then have "2 ^ 23 \<le> round_even (x / u)" using round_even_mono round_even_of_int by metis
  then have "(of_int (2 ^ 23) :: rat) \<le> of_int (round_even (x / u))" by (simp only: of_int_le_iff)
  then have "2 powi 23 * u \<le> of_int (round_even (x / u)) * u" using u by simp
  also have "\<dots> = f32 x" by (simp only: f32_pos[OF x] e u_def)
  finally show ?thesis by (simp only: eu [symmetric] e_def)
qed

lemma f32_mono_pos:
  assumes x: "0 < x" and xy: "x \<le> y"
  shows "f32 x \<le> f32 y"
proof -
  have y: "0 < y" using x xy by simp
  define ex where "ex = max (ilog2 x) (- 126)"
  define ey where "ey = max (ilog2 y) (- 126)"
  have le: "ex \<le> ey" using ilog2_mono[OF x xy] by (simp add: ex_def ey_def)
  show ?thesis
  proof (cases "ex = ey")
    case True
    define u :: rat where "u = 2 powi (ex - 23)"
    have u: "0 < u" by (simp add: u_def)
    have "x / u \<le> y / u" using xy u by (simp add: divide_right_mono)
    then have "round_even (x / u) \<le> round_even (y / u)" by (rule round_even_mono)
    then have "(of_int (round_even (x / u)) :: rat) \<le> of_int (round_even (y / u))" by simp
    then have "of_int (round_even (x / u)) * u \<le> of_int (round_even (y / u)) * u"
      using u by simp
    then show ?thesis
      using True by (simp add: f32_pos[OF x] f32_pos[OF y] ex_def ey_def u_def)
  next
    case False
    then have lt: "ex < ey" using le by simp
    then have ey: "ey = ilog2 y" "- 126 \<le> ilog2 y" by (auto simp: ex_def ey_def)
    have "f32 x \<le> 2 powi (ex + 1)" using f32_upper[OF x] by (simp add: ex_def)
    also have "\<dots> \<le> 2 powi ey" by (rule power_int_increasing) (use lt in simp_all)
    also have "\<dots> \<le> f32 y" using f32_lower[OF y ey(2)] by (simp add: ey(1))
    finally show ?thesis .
  qed
qed

lemma f32_zero [simp]: "f32 0 = 0"
  by (simp add: f32_def)

lemma f32_mono: "x \<le> y \<Longrightarrow> f32 x \<le> f32 y"
proof -
  assume xy: "x \<le> y"
  consider "0 < x" | "x \<le> 0" "0 \<le> y" | "y < 0" by linarith
  then show ?thesis
  proof cases
    case 1
    then show ?thesis using xy by (rule f32_mono_pos)
  next
    case 2
    have "0 \<le> f32 (- x)" using 2 by (intro f32_nonneg) simp
    then have "f32 x \<le> 0" by (simp add: f32_minus)
    then show ?thesis using f32_nonneg[OF 2(2)] by simp
  next
    case 3
    then have "f32 (- y) \<le> f32 (- x)" using xy by (intro f32_mono_pos) simp_all
    then show ?thesis by (simp add: f32_minus)
  qed
qed

lemma f32_exact:
  assumes m: "\<bar>m\<bar> < 2 ^ 24" and k: "- 149 \<le> k"
  shows "f32 (of_int m * 2 powi k) = of_int m * 2 powi k"
proof (cases "m = 0")
  case True
  then show ?thesis by simp
next
  case False
  define x :: rat where "x = of_int m * 2 powi k"
  have ax: "\<bar>x\<bar> = of_int \<bar>m\<bar> * 2 powi k" by (simp add: x_def abs_mult)
  have xpos: "0 < \<bar>x\<bar>" using False by (simp add: x_def)
  define e where "e = max (ilog2 \<bar>x\<bar>) (- 126)"
  have "(of_int \<bar>m\<bar> :: rat) < of_int (2 ^ 24)" using m by (simp only: of_int_less_iff)
  then have "\<bar>x\<bar> < 2 powi 24 * 2 powi k" by (simp add: ax)
  also have "\<dots> = 2 powi (24 + k)" by (rule pow2_mult_eq) simp
  finally have "2 powi (ilog2 \<bar>x\<bar>) < (2::rat) powi (24 + k)"
    using ilog2_bounds[OF xpos] by linarith
  then have "ilog2 \<bar>x\<bar> < 24 + k" by (rule pow2_less_imp)
  then have ek: "0 \<le> k - (e - 23)" using k by (simp add: e_def)
  have "2 powi k = (2::rat) powi (k - (e - 23)) * 2 powi (e - 23)"
    by (rule pow2_mult_eq [symmetric]) simp
  also have "(2::rat) powi (k - (e - 23)) = of_int (2 ^ nat (k - (e - 23)))"
    using ek by (simp add: power_int_nonneg_exp)
  finally have "x / 2 powi (e - 23) = of_int (m * 2 ^ nat (k - (e - 23)))"
    by (simp add: x_def)
  then have "round_even (x / 2 powi (e - 23)) = m * 2 ^ nat (k - (e - 23))"
    by (simp only: round_even_of_int)
  moreover have "x \<noteq> 0" using xpos by simp
  ultimately have "f32 x = of_int (m * 2 ^ nat (k - (e - 23))) * 2 powi (e - 23)"
    by (simp add: f32_def Let_def e_def)
  also have "\<dots> = of_int m * ((2::rat) powi (k - (e - 23)) * 2 powi (e - 23))"
    using ek by (simp add: power_int_nonneg_exp)
  also have "(2::rat) powi (k - (e - 23)) * 2 powi (e - 23) = 2 powi k"
    by (rule pow2_mult_eq) simp
  finally show ?thesis by (simp add: x_def)
qed

lemma f32_of_int: "\<bar>n\<bar> < 2 ^ 24 \<Longrightarrow> f32 (of_int n) = of_int n"
  using f32_exact[of n 0] by simp


section \<open>Properties of the loops and of the sink\<close>

declare for_int.simps [simp del]

lemma for_int_fold: "for_int i n body w = fold body [i..<n] w"
proof (induction i n body w rule: for_int.induct)
  case (1 i n body w)
  show ?case
  proof (cases "i < n")
    case True
    with "1" show ?thesis by (subst for_int.simps) (simp add: upt_conv_Cons)
  next
    case False
    then show ?thesis by (subst for_int.simps) simp
  qed
qed

lemma calls_fold_set:
  "calls (fold (\<lambda>i. setPixelColor (f i) (c i)) xs w) =
     calls w @ map (\<lambda>i. SetPixelColor (f i) (c i)) xs"
  by (induction xs arbitrary: w) (simp_all add: setPixelColor_def)

lemma pixels_fold_set_const:
  "pixels (fold (\<lambda>i. setPixelColor (f i) c) xs w) p = (if p \<in> f ` set xs then c else pixels w p)"
  by (induction xs arbitrary: w) (auto simp: setPixelColor_def)

lemma clock_fold_set [simp]:
  "clock (fold (\<lambda>i. setPixelColor (f i) (c i)) xs w) = clock w"
  "reads (fold (\<lambda>i. setPixelColor (f i) (c i)) xs w) = reads w"
  by (induction xs arbitrary: w) (simp_all add: setPixelColor_def)

lemma count_Show_map_set [simp]:
  "count_list (map (\<lambda>i. SetPixelColor (f i) (c i)) xs) Show = 0"
  by (induction xs) simp_all

lemma count_Delay_map_set [simp]:
  "count_list (map (\<lambda>i. SetPixelColor (f i) (c i)) xs) (Delay d) = 0"
  by (induction xs) simp_all

section \<open>The base contract\<close>

text \<open>
  C7. Every call of \<^verbatim>\<open>End()\<close> clears the active flag, sets each usable pixel
  \<open>0 .. NUMBER_USED_PIXELS - 1\<close> to \<^verbatim>\<open>COLOR_BLACK\<close>, in this order, and then flushes the
  strip exactly once: the calls it adds are these writes followed by one \<^verbatim>\<open>show()\<close>, and
  afterwards every usable pixel of the buffer is black.
\<close>

theorem End_blanks_strip:
  "active (fst (End cfg ev w)) = False \<and>
   calls (snd (End cfg ev w)) =
     calls w @ map (\<lambda>i. SetPixelColor (of_nat i) (COLOR_BLACK cfg)) [0..<NUMBER_USED_PIXELS cfg]
             @ [Show] \<and>
   count_list (calls (snd (End cfg ev w))) Show = count_list (calls w) Show + 1 \<and>
   (\<forall>i < NUMBER_USED_PIXELS cfg. pixels (snd (End cfg ev w)) (of_nat i) = COLOR_BLACK cfg)"
proof -
  define blanked where
    "blanked = fold (\<lambda>i. setPixelColor (of_nat i) (COLOR_BLACK cfg)) [0..<NUMBER_USED_PIXELS cfg] w"
  have e: "End cfg ev w = (ev\<lparr>active := False\<rparr>, strip_show blanked)"
    by (simp add: End_def for_int_fold blanked_def)
  have c: "calls blanked =
      calls w @ map (\<lambda>i. SetPixelColor (of_nat i) (COLOR_BLACK cfg)) [0..<NUMBER_USED_PIXELS cfg]"
    unfolding blanked_def by (rule calls_fold_set)
  have p: "pixels blanked (of_nat i) = COLOR_BLACK cfg" if "i < NUMBER_USED_PIXELS cfg" for i
    using that unfolding blanked_def by (simp add: pixels_fold_set_const)
  show ?thesis
    by (simp add: e strip_show_def c p)
qed

theorem End_blanks_strip_witness:
  "active (fst (End strip8 event_on (world_at 700))) = False \<and>
   calls (snd (End strip8 event_on (world_at 700))) =
     [SetPixelColor 0 0, SetPixelColor 1 0, SetPixelColor 2 0, SetPixelColor 3 0,
      SetPixelColor 4 0, SetPixelColor 5 0, SetPixelColor 6 0, SetPixelColor 7 0, Show] \<and>
   (5::nat) < NUMBER_USED_PIXELS strip8 \<and>
   pixels (snd (End strip8 event_on (world_at 700))) 5 = 0"
proof -
  note t = End_blanks_strip [of strip8 event_on "world_at 700"]
  have n: "NUMBER_USED_PIXELS strip8 = 8" "COLOR_BLACK strip8 = 0"
    by (simp_all add: strip8_def)
  have l: "[0..<8] = [0, 1, 2, 3, 4, 5, 6, 7 :: nat]" by code_simp
  from t have 1: "active (fst (End strip8 event_on (world_at 700))) = False" by blast
  from t have 2: "calls (snd (End strip8 event_on (world_at 700))) =
     [SetPixelColor 0 0, SetPixelColor 1 0, SetPixelColor 2 0, SetPixelColor 3 0,
      SetPixelColor 4 0, SetPixelColor 5 0, SetPixelColor 6 0, SetPixelColor 7 0, Show]"
    by (simp add: n l world_at_def)
  from t have q: "i < NUMBER_USED_PIXELS strip8 \<Longrightarrow>
      pixels (snd (End strip8 event_on (world_at 700))) (of_nat i) = COLOR_BLACK strip8" for i
    by blast
  have 3: "pixels (snd (End strip8 event_on (world_at 700))) 5 = 0"
    using q [of 5] by (simp add: n)
  show ?thesis using 1 2 3 by (simp add: n)
qed

text \<open>
  C1. For each of the four events, \<^verbatim>\<open>Draw()\<close> called while \<^verbatim>\<open>GetActive()\<close> is false
  returns at once: the world is unchanged, so no \<^verbatim>\<open>setPixelColor\<close> and no \<^verbatim>\<open>show\<close> call
  is made and the pixel buffer is the same.
\<close>

theorem inactive_Draw_writes_nothing:
  "\<not> GetActive ev \<Longrightarrow> \<not> GetActive sev \<Longrightarrow>
     BackupEvent_Draw cfg ev w = w \<and>
     BrakingEvent_Draw cfg ev w = Some w \<and>
     SignalEvent_Draw cfg sev w = Inr w \<and>
     PoliceLightBar_Draw cfg ev w = Some (Inr w)"
  by (simp add: BackupEvent_Draw_def BrakingEvent_Draw_def SignalEvent_Draw_def
      PoliceLightBar_Draw_def)

theorem inactive_Draw_writes_nothing_witness:
  "\<not> GetActive LightingEvent \<and> \<not> GetActive hazard_off \<and>
   BackupEvent_Draw strip8 LightingEvent (world_at 700) = world_at 700 \<and>
   BrakingEvent_Draw strip8 LightingEvent (world_at 700) = Some (world_at 700) \<and>
   SignalEvent_Draw strip8 hazard_off (world_at 700) = Inr (world_at 700) \<and>
   PoliceLightBar_Draw strip8 LightingEvent (world_at 700) = Some (Inr (world_at 700))"
proof -
  have a: "\<not> GetActive LightingEvent" by (simp add: GetActive_def LightingEvent_def)
  have b: "\<not> GetActive hazard_off" by (simp add: GetActive_def hazard_off_def)
  show ?thesis
    using a b inactive_Draw_writes_nothing [OF a b, of strip8 "world_at 700"] by simp
qed

section \<open>Time, conversions and the counted loop\<close>

lemma unsigned_rat_nonneg: "0 \<le> (unsigned (x::'a::len word) :: rat)"
  by (metis of_nat_unat of_nat_0_le_iff)

lemma uint_less_int_iff: "uint (i::'a::len word) < int n \<longleftrightarrow> unat i < n"
  by (metis nat_less_iff unat_eq_nat_uint unsigned_greater_eq)

lemma for_uint16_upto:
  assumes c: "\<And>i. cond i \<longleftrightarrow> unat i < B" and B: "B \<le> 65535"
  shows "for_uint16 cond body i w = Some (fold body (map of_nat [unat i..<B]) w)"
proof (induction "B - unat i" arbitrary: i w)
  case 0
  then have "B \<le> unat i" by simp
  then show ?case by (subst for_uint16.simps) (simp add: c)
next
  case (Suc n)
  then have lt: "unat i < B" by simp
  then have ci: "cond i" by (simp add: c)
  have "unat i < 65535" using lt B by simp
  then have s: "unat (i + 1) = Suc (unat i)" by (simp add: unat_word_ariths)
  have n: "n = B - unat (i + 1)" using Suc(2) s by simp
  have l: "[unat i..<B] = unat i # [unat (i + 1)..<B]"
    using lt by (simp add: upt_conv_Cons s)
  have "for_uint16 cond body i w = for_uint16 cond body (i + 1) (body i w)"
    using ci by (subst for_uint16.simps) simp
  also have "\<dots> = Some (fold body (map of_nat [unat (i + 1)..<B]) (body i w))"
    by (rule Suc(1)[OF n])
  also have "\<dots> = Some (fold body (map of_nat [unat i..<B]) w)"
    by (simp add: l)
  finally show ?case .
qed


lemma f32_half [simp]: "f32 (1 / 2) = 1 / 2"
  using f32_exact [of 1 "- 1"] by simp

lemma f32_quarter [simp]: "f32 (1 / 4) = 1 / 4"
  using f32_exact [of 1 "- 2"] by simp

lemma float_of_int_exact: "\<bar>n\<bar> < 2 ^ 24 \<Longrightarrow> float_of_int n = of_int n"
  by (simp add: float_of_int_def f32_of_int)

lemma TimeElapsedTotal_snd [simp]:
  "snd (TimeElapsedTotal ev w) = w\<lparr>reads := Suc (reads w)\<rparr>"
  by (simp add: TimeElapsedTotal_def millis_def)

lemma TimeElapsedTotal_nonneg: "0 \<le> fst (TimeElapsedTotal ev w)"
  unfolding TimeElapsedTotal_def millis_def fdiv_def float_of_int_def Let_def
  by (auto intro!: f32_nonneg divide_nonneg_nonneg unsigned_rat_nonneg)

lemma TimeElapsedTotal_fst:
  "fst (TimeElapsedTotal ev w) = fdiv (float_of_int (uint (clock w (reads w) - eventStart ev))) 1000"
  by (simp add: TimeElapsedTotal_def millis_def)

lemma TimeElapsedTotal_mono:
  assumes "uint (clock w (reads w) - eventStart ev) \<le> uint (clock w2 (reads w2) - eventStart ev)"
  shows "fst (TimeElapsedTotal ev w) \<le> fst (TimeElapsedTotal ev w2)"
proof -
  have "(of_int (uint (clock w (reads w) - eventStart ev)) :: rat)
        \<le> of_int (uint (clock w2 (reads w2) - eventStart ev))"
    using assms by (simp only: of_int_le_iff)
  then have "f32 (of_int (uint (clock w (reads w) - eventStart ev)))
        \<le> f32 (of_int (uint (clock w2 (reads w2) - eventStart ev)))"
    by (rule f32_mono)
  then have "f32 (of_int (uint (clock w (reads w) - eventStart ev))) / 1000
        \<le> f32 (of_int (uint (clock w2 (reads w2) - eventStart ev))) / 1000"
    by (simp add: divide_right_mono)
  then show ?thesis
    unfolding TimeElapsedTotal_fst fdiv_def float_of_int_def by (rule f32_mono)
qed

lemma upt8: "[0..<8] = [0, 1, 2, 3, 4, 5, 6, 7 :: nat]"
  by code_simp


section \<open>BackupEvent: the steady frame\<close>

lemma f32_one [simp]: "f32 1 = 1"
  using f32_exact [of 1 0] by simp

lemma cdiv_nonneg: "0 \<le> a \<Longrightarrow> 0 < b \<Longrightarrow> cdiv a b = a div b"
  by (cases "a = 0") (simp_all add: cdiv_def)

lemma BackupEvent_Draw_full:
  assumes a: "GetActive ev" and t: "1 / 4 \<le> fst (TimeElapsedTotal ev w)"
    and n: "NUMBER_USED_PIXELS cfg < 2 ^ 24"
  shows "BackupEvent_Draw cfg ev w =
    strip_show (fold (\<lambda>i. setPixelColor (of_nat i) (COLOR_WHITE cfg))
                  [0..<NUMBER_USED_PIXELS cfg] (w\<lparr>reads := Suc (reads w)\<rparr>))"
proof -
  define N where "N = NUMBER_USED_PIXELS cfg"
  define e where "e = fst (TimeElapsedTotal ev w)"
  have "f32 1 \<le> f32 (e / (1 / 4))" using t by (intro f32_mono) (simp add: e_def)
  then have pct: "fmin (fdiv e BackupEvent_BLOOM_TIME) 1 = 1"
    by (simp add: fmin_def fdiv_def BackupEvent_BLOOM_TIME_def)
  have n': "N < 2 ^ 24" using n by (simp add: N_def)
  have fN: "float_of_int (int N) = of_nat N"
    using n' float_of_int_exact [of "int N"] by simp
  have "fmul (float_of_int (int N)) 1 = of_int (int N)"
    using n' f32_of_int [of "int N"] by (simp add: fmul_def fN)
  then have c: "int_of_float (fmul (float_of_int (int N)) 1) = int N"
    by (simp add: int_of_float_def)
  have d: "cdiv (int N) 2 = int (N div 2)" by (simp add: cdiv_nonneg zdiv_int)
  have body: "(if int i < cdiv (int N) 2 - cdiv (int N) 2 \<or> cdiv (int N) 2 + cdiv (int N) 2 < int i
               then setPixelColor (of_nat i) (COLOR_BLACK cfg)
               else setPixelColor (of_nat i) (COLOR_WHITE cfg)) =
              setPixelColor (of_nat i) (COLOR_WHITE cfg)" if "i \<in> set [0..<N]" for i
  proof -
    have "i < N" using that by simp
    then have "int i \<le> int (N div 2) + int (N div 2)" by linarith
    then show ?thesis by (simp add: d)
  qed
  have "fold (\<lambda>i. if int i < cdiv (int N) 2 - cdiv (int N) 2 \<or> cdiv (int N) 2 + cdiv (int N) 2 < int i
               then setPixelColor (of_nat i) (COLOR_BLACK cfg)
               else setPixelColor (of_nat i) (COLOR_WHITE cfg)) [0..<N] w' =
        fold (\<lambda>i. setPixelColor (of_nat i) (COLOR_WHITE cfg)) [0..<N] w'" for w'
    by (rule fold_cong) (simp_all only: body)
  then show ?thesis
    using a by (simp add: BackupEvent_Draw_def split_beta Let_def for_int_fold pct c
        flip: N_def e_def)
qed

lemma setPixelColor_if:
  "(\<lambda>i. if P i then setPixelColor (f i) a else setPixelColor (f i) b) =
   (\<lambda>i. setPixelColor (f i) (if P i then a else b))"
  by (rule ext) simp

lemma BackupEvent_Draw_later:
  assumes a: "GetActive ev" and t: "clock w (reads w) = t"
  shows "calls (BackupEvent_Draw cfg ev w) = calls w @ calls (BackupEvent_Draw cfg ev (world_at t))"
    and "clock (BackupEvent_Draw cfg ev w) = clock w"
    and "reads (BackupEvent_Draw cfg ev w) = Suc (reads w)"
proof -
  have e: "fst (TimeElapsedTotal ev (world_at t)) = fst (TimeElapsedTotal ev w)"
    by (simp add: TimeElapsedTotal_fst t world_at_def)
  show "calls (BackupEvent_Draw cfg ev w) = calls w @ calls (BackupEvent_Draw cfg ev (world_at t))"
    using a
    by (simp add: BackupEvent_Draw_def split_beta Let_def for_int_fold setPixelColor_if
        strip_show_def calls_fold_set e)
       (simp add: world_at_def)
  show "clock (BackupEvent_Draw cfg ev w) = clock w"
    using a
    by (simp add: BackupEvent_Draw_def split_beta Let_def for_int_fold setPixelColor_if
        strip_show_def)
  show "reads (BackupEvent_Draw cfg ev w) = Suc (reads w)"
    using a
    by (simp add: BackupEvent_Draw_def split_beta Let_def for_int_fold setPixelColor_if
        strip_show_def)
qed

lemma backup_wrap_facts:
  "GetActive (event_on_at 1000)"
  "1 / 4 \<le> fst (TimeElapsedTotal (event_on_at 1000) (world_readings 1250 1100 1100))"
  "calls (BackupEvent_Draw strip8 (event_on_at 1000) (world_readings 1250 1100 1100)) =
     [SetPixelColor 0 0xFFFFFF, SetPixelColor 1 0xFFFFFF, SetPixelColor 2 0xFFFFFF,
      SetPixelColor 3 0xFFFFFF, SetPixelColor 4 0xFFFFFF, SetPixelColor 5 0xFFFFFF,
      SetPixelColor 6 0xFFFFFF, SetPixelColor 7 0xFFFFFF, Show]"
  "calls (BackupEvent_Draw strip8 (event_on_at 1000) (world_at 1100)) =
     [SetPixelColor 0 0, SetPixelColor 1 0, SetPixelColor 2 0,
      SetPixelColor 3 0xFFFFFF, SetPixelColor 4 0xFFFFFF, SetPixelColor 5 0xFFFFFF,
      SetPixelColor 6 0, SetPixelColor 7 0, Show]"
  by code_simp+

text \<open>
  C6, as amended. A call of \<^verbatim>\<open>BackupEvent::Draw\<close> on an active event whose elapsed time
  (the float that \<^verbatim>\<open>TimeElapsedTotal()\<close> computes from the clock reading) is at least 0.25 s
  sets every usable pixel \<open>0 .. NUMBER_USED_PIXELS - 1\<close> to white and then flushes the strip.
  A subsequent call on the same event (world \<open>w2\<close>) writes the identical fully white frame
  \<^emph>\<open>provided the 32-bit count of elapsed milliseconds has not wrapped\<close>: the unsigned
  difference between the clock reading and the event's start is at least what it was at the
  earlier call. The pixel count is below \<open>2 ^ 24\<close>, so that its conversion to float is exact.
\<close>

theorem BackupEvent_holds_white:
  assumes "GetActive ev"
    and "1 / 4 \<le> fst (TimeElapsedTotal ev w)"
    and "uint (clock w (reads w) - eventStart ev) \<le> uint (clock w2 (reads w2) - eventStart ev)"
    and "NUMBER_USED_PIXELS cfg < 2 ^ 24"
  shows
    "calls (BackupEvent_Draw cfg ev w) =
       calls w @ map (\<lambda>i. SetPixelColor (of_nat i) (COLOR_WHITE cfg))
                    [0..<NUMBER_USED_PIXELS cfg] @ [Show] \<and>
     (\<forall>i < NUMBER_USED_PIXELS cfg. pixels (BackupEvent_Draw cfg ev w) (of_nat i) = COLOR_WHITE cfg) \<and>
     calls (BackupEvent_Draw cfg ev w2) =
       calls w2 @ map (\<lambda>i. SetPixelColor (of_nat i) (COLOR_WHITE cfg))
                     [0..<NUMBER_USED_PIXELS cfg] @ [Show] \<and>
     (\<forall>i < NUMBER_USED_PIXELS cfg. pixels (BackupEvent_Draw cfg ev w2) (of_nat i) = COLOR_WHITE cfg)"
proof -
  have t2: "1 / 4 \<le> fst (TimeElapsedTotal ev w2)"
    using assms(2) TimeElapsedTotal_mono [OF assms(3)] by simp
  show ?thesis
    by (simp add: BackupEvent_Draw_full [OF assms(1,2,4)] BackupEvent_Draw_full [OF assms(1) t2 assms(4)]
      strip_show_def calls_fold_set pixels_fold_set_const)
qed

theorem BackupEvent_holds_white_witness:
  "GetActive event_on \<and>
   1 / 4 \<le> fst (TimeElapsedTotal event_on (world_at 250)) \<and>
   uint (clock (world_at 250) (reads (world_at 250)) - eventStart event_on)
     \<le> uint (clock (world_at 90000) (reads (world_at 90000)) - eventStart event_on) \<and>
   NUMBER_USED_PIXELS strip8 < 2 ^ 24 \<and>
   calls (BackupEvent_Draw strip8 event_on (world_at 250)) =
     [SetPixelColor 0 0xFFFFFF, SetPixelColor 1 0xFFFFFF, SetPixelColor 2 0xFFFFFF,
      SetPixelColor 3 0xFFFFFF, SetPixelColor 4 0xFFFFFF, SetPixelColor 5 0xFFFFFF,
      SetPixelColor 6 0xFFFFFF, SetPixelColor 7 0xFFFFFF, Show] \<and>
   calls (BackupEvent_Draw strip8 event_on (world_at 90000)) =
     calls (BackupEvent_Draw strip8 event_on (world_at 250)) \<and>
   pixels (BackupEvent_Draw strip8 event_on (world_at 250)) 0 = 0xFFFFFF \<and>
   pixels (BackupEvent_Draw strip8 event_on (world_at 90000)) 7 = 0xFFFFFF"
proof -
  have a: "GetActive event_on" by (simp add: GetActive_def event_on_def)
  have t: "1 / 4 \<le> fst (TimeElapsedTotal event_on (world_at 250))" by code_simp
  have l: "uint (clock (world_at 250) (reads (world_at 250)) - eventStart event_on)
     \<le> uint (clock (world_at 90000) (reads (world_at 90000)) - eventStart event_on)"
    by (simp add: world_at_def event_on_def)
  have n: "NUMBER_USED_PIXELS strip8 < 2 ^ 24" "NUMBER_USED_PIXELS strip8 = 8"
    "COLOR_WHITE strip8 = 0xFFFFFF"
    by (simp_all add: strip8_def)
  note r = BackupEvent_holds_white [OF a t l n(1)]
  from r have p: "i < NUMBER_USED_PIXELS strip8 \<Longrightarrow>
      pixels (BackupEvent_Draw strip8 event_on (world_at 250)) (of_nat i) = COLOR_WHITE strip8" for i
    by blast
  from r have p2: "i < NUMBER_USED_PIXELS strip8 \<Longrightarrow>
      pixels (BackupEvent_Draw strip8 event_on (world_at 90000)) (of_nat i) = COLOR_WHITE strip8" for i
    by blast
  have "pixels (BackupEvent_Draw strip8 event_on (world_at 250)) 0 = 0xFFFFFF"
    using p [of 0] by (simp add: n)
  moreover have "pixels (BackupEvent_Draw strip8 event_on (world_at 90000)) 7 = 0xFFFFFF"
    using p2 [of 7] by (simp add: n)
  ultimately show ?thesis using a t l r by (simp add: n upt8 world_at_def)
qed

text \<open>
  The claim C6 as stated, with the white frame held at every subsequent call until
  \<^verbatim>\<open>End()\<close>, fails once the 32-bit millisecond count wraps. An event begun at clock reading
  1000 is drawn at reading 1250: elapsed time 0.25 s, all 8 pixels white. It is drawn
  again after the clock has wrapped, at reading 1100: the elapsed time is computed as 0.1 s
  and the frame has white pixels 3 to 5 only, the others are set to black.
\<close>

theorem BackupEvent_restarts_after_wrap:
  "GetActive (event_on_at 1000) \<and>
   1 / 4 \<le> fst (TimeElapsedTotal (event_on_at 1000) (world_readings 1250 1100 1100)) \<and>
   calls (BackupEvent_Draw strip8 (event_on_at 1000) (world_readings 1250 1100 1100)) =
     [SetPixelColor 0 0xFFFFFF, SetPixelColor 1 0xFFFFFF, SetPixelColor 2 0xFFFFFF,
      SetPixelColor 3 0xFFFFFF, SetPixelColor 4 0xFFFFFF, SetPixelColor 5 0xFFFFFF,
      SetPixelColor 6 0xFFFFFF, SetPixelColor 7 0xFFFFFF, Show] \<and>
   calls (BackupEvent_Draw strip8 (event_on_at 1000)
            (BackupEvent_Draw strip8 (event_on_at 1000) (world_readings 1250 1100 1100))) =
     [SetPixelColor 0 0xFFFFFF, SetPixelColor 1 0xFFFFFF, SetPixelColor 2 0xFFFFFF,
      SetPixelColor 3 0xFFFFFF, SetPixelColor 4 0xFFFFFF, SetPixelColor 5 0xFFFFFF,
      SetPixelColor 6 0xFFFFFF, SetPixelColor 7 0xFFFFFF, Show,
      SetPixelColor 0 0, SetPixelColor 1 0, SetPixelColor 2 0,
      SetPixelColor 3 0xFFFFFF, SetPixelColor 4 0xFFFFFF, SetPixelColor 5 0xFFFFFF,
      SetPixelColor 6 0, SetPixelColor 7 0, Show]"
proof -
  define W1 where "W1 = BackupEvent_Draw strip8 (event_on_at 1000) (world_readings 1250 1100 1100)"
  have "clock W1 (reads W1) = 1100"
    unfolding W1_def
    by (simp add: BackupEvent_Draw_later(2,3) [OF backup_wrap_facts(1) refl] world_readings_def)
  then have "calls (BackupEvent_Draw strip8 (event_on_at 1000) W1) =
      calls W1 @ calls (BackupEvent_Draw strip8 (event_on_at 1000) (world_at 1100))"
    by (rule BackupEvent_Draw_later(1) [OF backup_wrap_facts(1)])
  then show ?thesis
    using backup_wrap_facts unfolding W1_def by simp
qed

section \<open>BrakingEvent: the steady phase\<close>

lemma BrakingEvent_Draw_steady:
  assumes a: "GetActive ev" and t: "1 / 2 \<le> fst (TimeElapsedTotal ev w)"
    and n: "NUMBER_USED_PIXELS cfg \<le> 65535"
  shows "BrakingEvent_Draw cfg ev w =
    Some (strip_show (fold (\<lambda>i. setPixelColor (of_nat i) (COLOR_RED cfg))
                        [0..<NUMBER_USED_PIXELS cfg] (w\<lparr>reads := Suc (reads w)\<rparr>)))"
proof -
  have l: "for_uint16 (\<lambda>i. uint i < int (NUMBER_USED_PIXELS cfg))
             (\<lambda>i. setPixelColor i (COLOR_RED cfg)) 0 w' =
           Some (fold (\<lambda>i. setPixelColor i (COLOR_RED cfg))
                   (map of_nat [0..<NUMBER_USED_PIXELS cfg]) w')" for w'
    using for_uint16_upto [of "\<lambda>i. uint i < int (NUMBER_USED_PIXELS cfg)" "NUMBER_USED_PIXELS cfg"
        "\<lambda>i. setPixelColor i (COLOR_RED cfg)" 0 w'] n
    by (simp add: uint_less_int_iff)
  have nt: "\<not> fst (TimeElapsedTotal ev w) < BRAKE_STROBE_DURATION"
    using t by (simp add: BRAKE_STROBE_DURATION_def)
  show ?thesis
    using a nt
    by (simp add: BrakingEvent_Draw_def l split_beta fold_map comp_def)
qed

text \<open>
  C5. A call of \<^verbatim>\<open>BrakingEvent::Draw\<close> on an active event whose elapsed time is at least
  0.5 s returns, having set every usable pixel \<open>0 .. NUMBER_USED_PIXELS - 1\<close> to red and
  flushed the strip exactly once; it makes no \<^verbatim>\<open>delay\<close> call. The pixel count fits the
  16-bit loop counter.
\<close>

theorem BrakingEvent_steady_phase:
  assumes "GetActive ev" and "1 / 2 \<le> fst (TimeElapsedTotal ev w)"
    and "NUMBER_USED_PIXELS cfg \<le> 65535"
  shows "\<exists>w'. BrakingEvent_Draw cfg ev w = Some w' \<and>
     calls w' = calls w @ map (\<lambda>i. SetPixelColor (of_nat i) (COLOR_RED cfg))
                              [0..<NUMBER_USED_PIXELS cfg] @ [Show] \<and>
     count_list (calls w') Show = count_list (calls w) Show + 1 \<and>
     (\<forall>ms. count_list (calls w') (Delay ms) = count_list (calls w) (Delay ms)) \<and>
     (\<forall>i < NUMBER_USED_PIXELS cfg. pixels w' (of_nat i) = COLOR_RED cfg)"
  by (simp add: BrakingEvent_Draw_steady [OF assms] strip_show_def calls_fold_set
      pixels_fold_set_const)

theorem BrakingEvent_steady_phase_witness:
  "GetActive event_on \<and> 1 / 2 \<le> fst (TimeElapsedTotal event_on (world_at 700)) \<and>
   NUMBER_USED_PIXELS strip8 \<le> 65535 \<and>
   calls (the (BrakingEvent_Draw strip8 event_on (world_at 700))) =
     [SetPixelColor 0 0xFF0000, SetPixelColor 1 0xFF0000, SetPixelColor 2 0xFF0000,
      SetPixelColor 3 0xFF0000, SetPixelColor 4 0xFF0000, SetPixelColor 5 0xFF0000,
      SetPixelColor 6 0xFF0000, SetPixelColor 7 0xFF0000, Show] \<and>
   pixels (the (BrakingEvent_Draw strip8 event_on (world_at 700))) 5 = 0xFF0000"
proof -
  have a: "GetActive event_on" by (simp add: GetActive_def event_on_def)
  have t: "1 / 2 \<le> fst (TimeElapsedTotal event_on (world_at 700))" by code_simp
  have n: "NUMBER_USED_PIXELS strip8 \<le> 65535" "NUMBER_USED_PIXELS strip8 = 8"
    "COLOR_RED strip8 = 0xFF0000"
    by (simp_all add: strip8_def)
  obtain w' where w': "BrakingEvent_Draw strip8 event_on (world_at 700) = Some w'"
    and c: "calls w' = calls (world_at 700) @ map (\<lambda>i. SetPixelColor (of_nat i) (COLOR_RED strip8))
                              [0..<NUMBER_USED_PIXELS strip8] @ [Show]"
    and p: "\<And>i. i < NUMBER_USED_PIXELS strip8 \<Longrightarrow> pixels w' (of_nat i) = COLOR_RED strip8"
    using BrakingEvent_steady_phase [OF a t n(1)] by blast
  have "pixels w' 5 = 0xFF0000" using p [of 5] by (simp add: n)
  then show ?thesis using a t w' c by (simp add: n upt8 world_at_def)
qed

section \<open>BrakingEvent: the bloom and strobe phase\<close>

lemma pctComplete_bounds: "0 \<le> t \<Longrightarrow> 0 \<le> pctComplete t \<and> pctComplete t \<le> 1"
proof -
  assume t: "0 \<le> t"
  have "0 \<le> f32 (t / (1 / 2))" using t by (intro f32_nonneg) simp
  moreover have "0 \<le> f32 (1 / 10)" by (intro f32_nonneg) simp
  ultimately have "0 \<le> f32 (f32 (t / (1 / 2)) + f32 (1 / 10))" by (intro f32_nonneg) simp
  then show ?thesis
    by (simp add: pctComplete_def fmin_def fadd_def fdiv_def BrakingEvent_BLOOM_TIME_def
        BLOOM_START_SIZE_def)
qed

lemma unusedEachEnd_bounds:
  assumes t: "0 \<le> t" and n: "NUMBER_USED_PIXELS cfg < 2 ^ 24"
  shows "0 \<le> unusedEachEnd cfg t \<and> unusedEachEnd cfg t \<le> of_nat (NUMBER_USED_PIXELS cfg)"
proof -
  define N :: rat where "N = of_nat (NUMBER_USED_PIXELS cfg)"
  have fN: "float_of_int (int (NUMBER_USED_PIXELS cfg)) = N"
    using n float_of_int_exact [of "int (NUMBER_USED_PIXELS cfg)"] by (simp add: N_def)
  have f2: "float_of_int 2 = 2" using float_of_int_exact [of 2] by simp
  have N0: "0 \<le> N" by (simp add: N_def)
  have fNN: "f32 N = N" using fN by (simp add: float_of_int_def N_def)
  define a where "a = fsub 1 (pctComplete t)"
  have a: "0 \<le> a" "a \<le> 1"
  proof -
    show "0 \<le> a" unfolding a_def fsub_def using pctComplete_bounds [OF t] by (intro f32_nonneg) simp
    have "f32 (1 - pctComplete t) \<le> f32 1" using pctComplete_bounds [OF t] by (intro f32_mono) simp
    then show "a \<le> 1" by (simp add: a_def fsub_def)
  qed
  define b where "b = fmul a N"
  have b: "0 \<le> b" "b \<le> N"
  proof -
    show "0 \<le> b" unfolding b_def fmul_def using a N0 by (intro f32_nonneg) simp
    have "a * N \<le> N" using a N0 by (simp add: mult_left_le_one_le)
    then have "f32 (a * N) \<le> f32 N" by (rule f32_mono)
    then show "b \<le> N" by (simp add: b_def fmul_def fNN)
  qed
  have u: "unusedEachEnd cfg t = f32 (b / 2)"
    by (simp add: unusedEachEnd_def fdiv_def fN f2 b_def a_def)
  have "0 \<le> f32 (b / 2)" using b by (intro f32_nonneg) simp
  moreover have "f32 (b / 2) \<le> f32 N" using b N0 by (intro f32_mono) simp
  ultimately show ?thesis by (simp add: u fNN flip: N_def)
qed

lemma unat_word_of_int_16:
  "0 \<le> z \<Longrightarrow> z < 65536 \<Longrightarrow> unat (word_of_int z :: 16 word) = nat z"
  by (simp add: unsigned_of_int take_bit_int_eq_self)

lemma draw_bar_range:
  assumes u0: "0 \<le> u" and uN: "u \<le> of_nat (NUMBER_USED_PIXELS cfg)"
    and n: "NUMBER_USED_PIXELS cfg \<le> 65535"
  shows "draw_bar cfg u color w =
    Some (fold (\<lambda>i. setPixelColor (of_nat i) color)
            [nat \<lfloor>u\<rfloor>..<nat \<lceil>fsub (float_of_int (int (NUMBER_USED_PIXELS cfg))) u\<rceil>] w)"
proof -
  define N :: rat where "N = of_nat (NUMBER_USED_PIXELS cfg)"
  define x where "x = fsub (float_of_int (int (NUMBER_USED_PIXELS cfg))) u"
  have fN: "float_of_int (int (NUMBER_USED_PIXELS cfg)) = N"
    using n float_of_int_exact [of "int (NUMBER_USED_PIXELS cfg)"] by (simp add: N_def)
  have fNN: "f32 N = N" using fN by (simp add: float_of_int_def N_def)
  have "f32 (N - u) \<le> f32 N" using u0 by (intro f32_mono) simp
  then have xN: "x \<le> N" by (simp add: x_def fsub_def fN fNN)
  then have "\<lceil>x\<rceil> \<le> int (NUMBER_USED_PIXELS cfg)" by (simp add: ceiling_le_iff N_def)
  then have B: "nat \<lceil>x\<rceil> \<le> 65535" using n by linarith
  have cond: "float_of_int (uint i) < x \<longleftrightarrow> unat i < nat \<lceil>x\<rceil>" for i :: "16 word"
  proof -
    have "uint i < 2 ^ 16" using uint_lt2p [of i] by simp
    then have "\<bar>uint i\<bar> < 2 ^ 24" by simp
    then have "float_of_int (uint i) = of_int (uint i)" by (rule float_of_int_exact)
    moreover have "(of_int (uint i) < x) = (uint i < \<lceil>x\<rceil>)" by (simp only: less_ceiling_iff)
    moreover have "(uint i < \<lceil>x\<rceil>) = (unat i < nat \<lceil>x\<rceil>)"
      using nat_less_eq_zless [of "uint i" "\<lceil>x\<rceil>"] by simp
    ultimately show ?thesis by simp
  qed
  have "\<lfloor>u\<rfloor> \<le> int (NUMBER_USED_PIXELS cfg)" using uN by (simp add: floor_le_iff)
  then have "\<lfloor>u\<rfloor> < 65536" using n by linarith
  moreover have "0 \<le> \<lfloor>u\<rfloor>" using u0 by simp
  ultimately have "unat (word_of_int \<lfloor>u\<rfloor> :: 16 word) = nat \<lfloor>u\<rfloor>"
    by (rule unat_word_of_int_16 [rotated])
  then have start: "unat (word_of_int (int_of_float u) :: 16 word) = nat \<lfloor>u\<rfloor>"
    using u0 by (simp add: int_of_float_def)
  show ?thesis
    unfolding draw_bar_def
    using for_uint16_upto [of "\<lambda>i. float_of_int (uint i) < x" "nat \<lceil>x\<rceil>"
        "\<lambda>i. setPixelColor i color" "word_of_int (int_of_float u)" w, OF cond B]
    by (simp add: start fold_map comp_def flip: x_def)
qed

lemma BrakingEvent_Draw_bloom:
  assumes a: "GetActive ev" and t: "fst (TimeElapsedTotal ev w) < 1 / 2"
    and n: "NUMBER_USED_PIXELS cfg \<le> 65535"
    and u1: "u1 = unusedEachEnd cfg (fst (TimeElapsedTotal ev (w\<lparr>reads := Suc (reads w)\<rparr>)))"
    and u2: "u2 = unusedEachEnd cfg (fst (TimeElapsedTotal ev (w\<lparr>reads := Suc (Suc (reads w))\<rparr>)))"
    and r1: "r1 = [nat \<lfloor>u1\<rfloor>..<nat \<lceil>fsub (float_of_int (int (NUMBER_USED_PIXELS cfg))) u1\<rceil>]"
    and r2: "r2 = [nat \<lfloor>u2\<rfloor>..<nat \<lceil>fsub (float_of_int (int (NUMBER_USED_PIXELS cfg))) u2\<rceil>]"
  shows "\<exists>w'. BrakingEvent_Draw cfg ev w = Some w' \<and>
     calls w' = calls w @ map (\<lambda>i. SetPixelColor (of_nat i) (COLOR_RED cfg)) r1 @ [Show, Delay 30]
                        @ map (\<lambda>i. SetPixelColor (of_nat i) (COLOR_DARK_RED cfg)) r2 @ [Show, Delay 20] \<and>
     (\<forall>p. pixels w' p = (if p \<in> of_nat ` set r2 then COLOR_DARK_RED cfg
                          else if p \<in> of_nat ` set r1 then COLOR_RED cfg else pixels w p))"
proof -
  have n24: "NUMBER_USED_PIXELS cfg < 2 ^ 24" using n by simp
  have b1: "0 \<le> u1" "u1 \<le> of_nat (NUMBER_USED_PIXELS cfg)"
    using unusedEachEnd_bounds [OF TimeElapsedTotal_nonneg [of ev "w\<lparr>reads := Suc (reads w)\<rparr>"] n24]
    by (simp_all add: u1)
  have b2: "0 \<le> u2" "u2 \<le> of_nat (NUMBER_USED_PIXELS cfg)"
    using unusedEachEnd_bounds [OF TimeElapsedTotal_nonneg [of ev "w\<lparr>reads := Suc (Suc (reads w))\<rparr>"] n24]
    by (simp_all add: u2)
  note d1 = draw_bar_range [OF b1 n, folded r1]
  note d2 = draw_bar_range [OF b2 n, folded r2]
  have tt: "fst (TimeElapsedTotal ev w) < BRAKE_STROBE_DURATION"
    using t by (simp add: BRAKE_STROBE_DURATION_def)
  define w2 where "w2 = w\<lparr>reads := Suc (Suc (reads w))\<rparr>"
  define w4 where "w4 = delay 30 (strip_show (fold (\<lambda>i. setPixelColor (of_nat i) (COLOR_RED cfg)) r1 w2))"
  have e2: "fst (TimeElapsedTotal ev (w\<lparr>reads := Suc (reads w)\<rparr>)) =
            fst (TimeElapsedTotal ev (snd (TimeElapsedTotal ev w)))"
    by simp
  have e4: "fst (TimeElapsedTotal ev w4) = fst (TimeElapsedTotal ev (w\<lparr>reads := Suc (Suc (reads w))\<rparr>))"
    by (simp add: TimeElapsedTotal_fst w4_def w2_def delay_def strip_show_def)
  have u1': "unusedEachEnd cfg (fst (TimeElapsedTotal ev (w\<lparr>reads := Suc (reads w)\<rparr>))) = u1"
    by (simp add: u1)
  have u2': "unusedEachEnd cfg (fst (TimeElapsedTotal ev w4)) = u2"
    by (simp add: u2 e4)
  have "BrakingEvent_Draw cfg ev w =
      Some (delay 20 (strip_show (fold (\<lambda>i. setPixelColor (of_nat i) (COLOR_DARK_RED cfg)) r2
                                    (w4\<lparr>reads := Suc (reads w4)\<rparr>))))"
    using a tt
    by (simp add: BrakingEvent_Draw_def split_beta Let_def u1' d1 flip: w2_def w4_def)
       (simp add: u2' d2)
  then show ?thesis
    by (simp add: w4_def w2_def delay_def strip_show_def calls_fold_set pixels_fold_set_const)
qed

lemma bar_upper:
  assumes u0: "0 \<le> u" and n: "NUMBER_USED_PIXELS cfg \<le> 65535"
  shows "\<lceil>fsub (float_of_int (int (NUMBER_USED_PIXELS cfg))) u\<rceil> \<le> int (NUMBER_USED_PIXELS cfg)"
proof -
  define N :: rat where "N = of_nat (NUMBER_USED_PIXELS cfg)"
  have fN: "float_of_int (int (NUMBER_USED_PIXELS cfg)) = N"
    using n float_of_int_exact [of "int (NUMBER_USED_PIXELS cfg)"] by (simp add: N_def)
  have fNN: "f32 N = N" using fN by (simp add: float_of_int_def N_def)
  have "f32 (N - u) \<le> f32 N" using u0 by (intro f32_mono) simp
  then show ?thesis by (simp add: fsub_def fN fNN ceiling_le_iff) (simp add: N_def)
qed

lemma uint_of_nat_16: "k < 65536 \<Longrightarrow> uint (of_nat k :: 16 word) = int k"
  by (simp add: unsigned_of_nat take_bit_nat_eq_self)

lemma in_bar_iff:
  fixes p :: "16 word"
  assumes u0: "0 \<le> u" and n: "NUMBER_USED_PIXELS cfg \<le> 65535"
    and x: "x = fsub (float_of_int (int (NUMBER_USED_PIXELS cfg))) u"
  shows "p \<in> of_nat ` set [nat \<lfloor>u\<rfloor>..<nat \<lceil>x\<rceil>] \<longleftrightarrow> \<lfloor>u\<rfloor> \<le> uint p \<and> of_int (uint p) < x"
proof
  assume "p \<in> of_nat ` set [nat \<lfloor>u\<rfloor>..<nat \<lceil>x\<rceil>]"
  then obtain k where k: "p = of_nat k" "nat \<lfloor>u\<rfloor> \<le> k" "k < nat \<lceil>x\<rceil>" by auto
  have "int k < \<lceil>x\<rceil>" using k(3) by linarith
  moreover have "\<lceil>x\<rceil> \<le> 65535" using bar_upper [OF u0 n] n unfolding x by linarith
  ultimately have "k < 65536" by linarith
  then have up: "uint p = int k"
    unfolding k(1) by (rule uint_of_nat_16)
  show "\<lfloor>u\<rfloor> \<le> uint p \<and> of_int (uint p) < x"
    using k(2) \<open>int k < \<lceil>x\<rceil>\<close> by (simp add: up less_ceiling_iff)
next
  assume h: "\<lfloor>u\<rfloor> \<le> uint p \<and> of_int (uint p) < x"
  then have "uint p < \<lceil>x\<rceil>" by (simp add: less_ceiling_iff)
  then have "unat p < nat \<lceil>x\<rceil>" using nat_less_eq_zless [of "uint p" "\<lceil>x\<rceil>"] by simp
  moreover have "nat \<lfloor>u\<rfloor> \<le> unat p" using h nat_mono [of "\<lfloor>u\<rfloor>" "uint p"] by simp
  ultimately have "unat p \<in> set [nat \<lfloor>u\<rfloor>..<nat \<lceil>x\<rceil>]" by simp
  then have "of_nat (unat p) \<in> (of_nat ` set [nat \<lfloor>u\<rfloor>..<nat \<lceil>x\<rceil>] :: 16 word set)"
    by (rule imageI)
  then show "p \<in> of_nat ` set [nat \<lfloor>u\<rfloor>..<nat \<lceil>x\<rceil>]" by simp
qed

lemma world_at_elapsed [simp]:
  "fst (TimeElapsedTotal ev ((world_at t)\<lparr>reads := k\<rparr>)) = fst (TimeElapsedTotal ev (world_at t))"
  by (simp add: TimeElapsedTotal_fst world_at_def)

lemma strip8_values:
  "NUMBER_USED_PIXELS strip8 = 8" "NUMBER_TURN_PIXELS strip8 = 3" "COLOR_BLACK strip8 = 0"
  "COLOR_WHITE strip8 = 0xFFFFFF" "COLOR_RED strip8 = 0xFF0000" "COLOR_DARK_RED strip8 = 0x400000"
  "COLOR_BLUE strip8 = 0x0000FF" "COLOR_AMBER strip8 = 0xFFBF00"
  by (simp_all add: strip8_def)

lemma event_on_active: "GetActive event_on"
  by (simp add: GetActive_def event_on_def)

lemma bloom_at_0:
  "fst (TimeElapsedTotal event_on (world_at 0)) < 1 / 2"
  "\<lfloor>unusedEachEnd strip8 (fst (TimeElapsedTotal event_on (world_at 0)))\<rfloor> = 3"
  "\<lceil>fsub (float_of_int (int (NUMBER_USED_PIXELS strip8)))
         (unusedEachEnd strip8 (fst (TimeElapsedTotal event_on (world_at 0))))\<rceil> = 5"
  "(3 :: rat) < unusedEachEnd strip8 (fst (TimeElapsedTotal event_on (world_at 0)))"
  by code_simp+

lemma bloom_at_100:
  "fst (TimeElapsedTotal event_on (world_at 100)) < 1 / 2"
  "\<lfloor>unusedEachEnd strip8 (fst (TimeElapsedTotal event_on (world_at 100)))\<rfloor> = 2"
  "\<lceil>fsub (float_of_int (int (NUMBER_USED_PIXELS strip8)))
         (unusedEachEnd strip8 (fst (TimeElapsedTotal event_on (world_at 100))))\<rceil> = 6"
  by code_simp+

lemma upt_small: "[3..<5] = [3, 4 :: nat]" "[2..<6] = [2, 3, 4, 5 :: nat]"
  by code_simp+

lemma Draw_bloom_at_0:
  "\<exists>w'. BrakingEvent_Draw strip8 event_on (world_at 0) = Some w' \<and>
     calls w' = [SetPixelColor 3 0xFF0000, SetPixelColor 4 0xFF0000, Show, Delay 30,
                 SetPixelColor 3 0x400000, SetPixelColor 4 0x400000, Show, Delay 20] \<and>
     pixels w' 3 = 0x400000"
proof -
  have n: "NUMBER_USED_PIXELS strip8 \<le> 65535" by (simp add: strip8_values)
  have r: "[3..<5] =
      [nat \<lfloor>unusedEachEnd strip8 (fst (TimeElapsedTotal event_on ((world_at 0)\<lparr>reads := k\<rparr>)))\<rfloor>..<
       nat \<lceil>fsub (float_of_int (int (NUMBER_USED_PIXELS strip8)))
              (unusedEachEnd strip8 (fst (TimeElapsedTotal event_on ((world_at 0)\<lparr>reads := k\<rparr>))))\<rceil>]"
    for k
    by (simp add: bloom_at_0)
  obtain w' where d: "BrakingEvent_Draw strip8 event_on (world_at 0) = Some w'"
    and c: "calls w' = calls (world_at 0)
         @ map (\<lambda>i. SetPixelColor (of_nat i) (COLOR_RED strip8)) [3..<5] @ [Show, Delay 30]
         @ map (\<lambda>i. SetPixelColor (of_nat i) (COLOR_DARK_RED strip8)) [3..<5] @ [Show, Delay 20]"
    and p: "\<And>p. pixels w' p = (if p \<in> of_nat ` set [3..<5] then COLOR_DARK_RED strip8
                          else if p \<in> of_nat ` set [3..<5] then COLOR_RED strip8
                          else pixels (world_at 0) p)"
    using BrakingEvent_Draw_bloom [OF event_on_active bloom_at_0(1) n refl refl r r]
    by blast
  have "pixels w' 3 = 0x400000" by (simp add: p upt_small strip8_values)
  moreover have "calls w' = [SetPixelColor 3 0xFF0000, SetPixelColor 4 0xFF0000, Show, Delay 30,
                 SetPixelColor 3 0x400000, SetPixelColor 4 0x400000, Show, Delay 20]"
    by (simp add: c upt_small strip8_values world_at_def)
  ultimately show ?thesis using d by blast
qed

lemma Draw_bloom_at_100:
  "\<exists>w'. BrakingEvent_Draw strip8 event_on (world_at 100) = Some w' \<and>
     calls w' = [SetPixelColor 2 0xFF0000, SetPixelColor 3 0xFF0000, SetPixelColor 4 0xFF0000,
                 SetPixelColor 5 0xFF0000, Show, Delay 30,
                 SetPixelColor 2 0x400000, SetPixelColor 3 0x400000, SetPixelColor 4 0x400000,
                 SetPixelColor 5 0x400000, Show, Delay 20]"
proof -
  have n: "NUMBER_USED_PIXELS strip8 \<le> 65535" by (simp add: strip8_values)
  have r: "[2..<6] =
      [nat \<lfloor>unusedEachEnd strip8 (fst (TimeElapsedTotal event_on ((world_at 100)\<lparr>reads := k\<rparr>)))\<rfloor>..<
       nat \<lceil>fsub (float_of_int (int (NUMBER_USED_PIXELS strip8)))
              (unusedEachEnd strip8 (fst (TimeElapsedTotal event_on ((world_at 100)\<lparr>reads := k\<rparr>))))\<rceil>]"
    for k
    by (simp add: bloom_at_100)
  obtain w' where d: "BrakingEvent_Draw strip8 event_on (world_at 100) = Some w'"
    and c: "calls w' = calls (world_at 100)
         @ map (\<lambda>i. SetPixelColor (of_nat i) (COLOR_RED strip8)) [2..<6] @ [Show, Delay 30]
         @ map (\<lambda>i. SetPixelColor (of_nat i) (COLOR_DARK_RED strip8)) [2..<6] @ [Show, Delay 20]"
    using BrakingEvent_Draw_bloom [OF event_on_active bloom_at_100(1) n refl refl r r]
    by blast
  have "calls w' = [SetPixelColor 2 0xFF0000, SetPixelColor 3 0xFF0000, SetPixelColor 4 0xFF0000,
                 SetPixelColor 5 0xFF0000, Show, Delay 30,
                 SetPixelColor 2 0x400000, SetPixelColor 3 0x400000, SetPixelColor 4 0x400000,
                 SetPixelColor 5 0x400000, Show, Delay 20]"
    by (simp add: c upt_small strip8_values world_at_def)
  then show ?thesis using d by blast
qed

lemma strip10_values:
  "NUMBER_USED_PIXELS strip10 = 10" "COLOR_RED strip10 = 0xFF0000" "COLOR_DARK_RED strip10 = 0x400000"
  by (simp_all add: strip10_def strip8_def)

lemma world_readings_fields:
  "calls (world_readings a b c) = []" "reads (world_readings a b c) = 0"
  "pixels (world_readings a b c) p = 0"
  by (simp_all add: world_readings_def)

lemma bloom_250_280:
  "fst (TimeElapsedTotal event_on (world_readings 250 250 280)) < 1 / 2"
  "\<lfloor>unusedEachEnd strip10 (fst (TimeElapsedTotal event_on
       ((world_readings 250 250 280)\<lparr>reads := Suc (reads (world_readings 250 250 280))\<rparr>)))\<rfloor> = 1"
  "fsub (float_of_int (int (NUMBER_USED_PIXELS strip10)))
        (unusedEachEnd strip10 (fst (TimeElapsedTotal event_on
           ((world_readings 250 250 280)\<lparr>reads := Suc (reads (world_readings 250 250 280))\<rparr>)))) = 8"
  "\<lfloor>unusedEachEnd strip10 (fst (TimeElapsedTotal event_on
       ((world_readings 250 250 280)\<lparr>reads := Suc (Suc (reads (world_readings 250 250 280)))\<rparr>)))\<rfloor> = 1"
  "\<lceil>fsub (float_of_int (int (NUMBER_USED_PIXELS strip10)))
        (unusedEachEnd strip10 (fst (TimeElapsedTotal event_on
           ((world_readings 250 250 280)\<lparr>reads := Suc (Suc (reads (world_readings 250 250 280)))\<rparr>))))\<rceil> = 9"
  "(8 :: rat) < 10 - unusedEachEnd strip10 (fst (TimeElapsedTotal event_on
       ((world_readings 250 250 280)\<lparr>reads := Suc (reads (world_readings 250 250 280))\<rparr>)))"
  by code_simp+

lemma bloom_0_30:
  "fst (TimeElapsedTotal event_on (world_readings 0 0 30)) < 1 / 2"
  "\<lfloor>unusedEachEnd strip8 (fst (TimeElapsedTotal event_on
       ((world_readings 0 0 30)\<lparr>reads := Suc (reads (world_readings 0 0 30))\<rparr>)))\<rfloor> = 3"
  "\<lceil>fsub (float_of_int (int (NUMBER_USED_PIXELS strip8)))
        (unusedEachEnd strip8 (fst (TimeElapsedTotal event_on
           ((world_readings 0 0 30)\<lparr>reads := Suc (reads (world_readings 0 0 30))\<rparr>))))\<rceil> = 5"
  "\<lfloor>unusedEachEnd strip8 (fst (TimeElapsedTotal event_on
       ((world_readings 0 0 30)\<lparr>reads := Suc (Suc (reads (world_readings 0 0 30)))\<rparr>)))\<rfloor> = 3"
  "\<lceil>fsub (float_of_int (int (NUMBER_USED_PIXELS strip8)))
        (unusedEachEnd strip8 (fst (TimeElapsedTotal event_on
           ((world_readings 0 0 30)\<lparr>reads := Suc (Suc (reads (world_readings 0 0 30)))\<rparr>))))\<rceil> = 5"
  "(3 :: rat) < unusedEachEnd strip8 (fst (TimeElapsedTotal event_on
       ((world_readings 0 0 30)\<lparr>reads := Suc (reads (world_readings 0 0 30))\<rparr>)))"
  by code_simp+

lemma upt_more:
  "[Suc 0..<8] = [1, 2, 3, 4, 5, 6, 7 :: nat]" "[Suc 0..<9] = [1, 2, 3, 4, 5, 6, 7, 8 :: nat]"
  by code_simp+

lemma Draw_bloom_0_30:
  "\<exists>w'. BrakingEvent_Draw strip8 event_on (world_readings 0 0 30) = Some w' \<and>
     calls w' = [SetPixelColor 3 0xFF0000, SetPixelColor 4 0xFF0000, Show, Delay 30,
                 SetPixelColor 3 0x400000, SetPixelColor 4 0x400000, Show, Delay 20]"
proof -
  have n: "NUMBER_USED_PIXELS strip8 \<le> 65535" by (simp add: strip8_values)
  have r1: "[3..<5] =
      [nat \<lfloor>unusedEachEnd strip8 (fst (TimeElapsedTotal event_on
         ((world_readings 0 0 30)\<lparr>reads := Suc (reads (world_readings 0 0 30))\<rparr>)))\<rfloor>..<
       nat \<lceil>fsub (float_of_int (int (NUMBER_USED_PIXELS strip8)))
              (unusedEachEnd strip8 (fst (TimeElapsedTotal event_on
         ((world_readings 0 0 30)\<lparr>reads := Suc (reads (world_readings 0 0 30))\<rparr>))))\<rceil>]"
    by (simp only: bloom_0_30) simp
  have r2: "[3..<5] =
      [nat \<lfloor>unusedEachEnd strip8 (fst (TimeElapsedTotal event_on
         ((world_readings 0 0 30)\<lparr>reads := Suc (Suc (reads (world_readings 0 0 30)))\<rparr>)))\<rfloor>..<
       nat \<lceil>fsub (float_of_int (int (NUMBER_USED_PIXELS strip8)))
              (unusedEachEnd strip8 (fst (TimeElapsedTotal event_on
         ((world_readings 0 0 30)\<lparr>reads := Suc (Suc (reads (world_readings 0 0 30)))\<rparr>))))\<rceil>]"
    by (simp only: bloom_0_30) simp
  obtain w' where d: "BrakingEvent_Draw strip8 event_on (world_readings 0 0 30) = Some w'"
    and c: "calls w' = calls (world_readings 0 0 30)
         @ map (\<lambda>i. SetPixelColor (of_nat i) (COLOR_RED strip8)) [3..<5] @ [Show, Delay 30]
         @ map (\<lambda>i. SetPixelColor (of_nat i) (COLOR_DARK_RED strip8)) [3..<5] @ [Show, Delay 20]"
    using BrakingEvent_Draw_bloom [OF event_on_active bloom_0_30(1) n refl refl r1 r2]
    by blast
  have "calls w' = [SetPixelColor 3 0xFF0000, SetPixelColor 4 0xFF0000, Show, Delay 30,
                 SetPixelColor 3 0x400000, SetPixelColor 4 0x400000, Show, Delay 20]"
    by (simp add: c upt_small strip8_values world_readings_fields)
  then show ?thesis using d by blast
qed

text \<open>
  C4, as amended. A call of \<^verbatim>\<open>BrakingEvent::Draw\<close> on an active event whose elapsed time
  (first clock reading) is below 0.5 s returns after exactly two flushes. With \<open>u1\<close> the
  margin \<^verbatim>\<open>unusedEachEnd = (1 - pct) * NUMBER_USED_PIXELS / 2\<close>,
  \<^verbatim>\<open>pct = min(1, elapsed / 0.5 + 0.10)\<close>, computed in single precision from the second
  clock reading (line 124), it sets to red the pixels \<open>i\<close> with \<open>trunc u1 \<le> i\<close> (the margin
  \<^emph>\<open>truncated to an integer\<close>) and \<open>i\<close> below the \<^emph>\<open>single-precision difference\<close>
  \<^verbatim>\<open>NUMBER_USED_PIXELS - unusedEachEnd\<close>, that is the exact difference rounded to the nearest
  float (\<open>fsub\<close>), in increasing order; then \<^verbatim>\<open>show()\<close> and \<^verbatim>\<open>delay(30)\<close>. It computes the
  margin \<open>u2\<close> again from the third, later clock reading (line 134) and sets the pixels of
  that range to dark red; then \<^verbatim>\<open>show()\<close> and \<^verbatim>\<open>delay(20)\<close>. The pixel count fits the
  16-bit loop counter.

  The rounding of the difference matters: on a strip of 10 pixels with clock readings 250,
  250 and 280 ms the first margin is 1.99999988, the exact difference 8.00000012 rounds to
  the float 8, and the red pass writes pixels 1 to 7 but not pixel 8; the dark-red pass, 30 ms
  later, writes pixels 1 to 8.
\<close>

theorem BrakingEvent_bloom_strobe:
  assumes "GetActive ev" and "fst (TimeElapsedTotal ev w) < 1 / 2"
    and "NUMBER_USED_PIXELS cfg \<le> 65535"
    and "u1 = unusedEachEnd cfg (fst (TimeElapsedTotal ev (w\<lparr>reads := Suc (reads w)\<rparr>)))"
    and "u2 = unusedEachEnd cfg (fst (TimeElapsedTotal ev (w\<lparr>reads := Suc (Suc (reads w))\<rparr>)))"
  shows "\<exists>w'. BrakingEvent_Draw cfg ev w = Some w' \<and>
     calls w' = calls w
       @ map (\<lambda>i. SetPixelColor (of_nat i) (COLOR_RED cfg))
             [nat \<lfloor>u1\<rfloor>..<nat \<lceil>fsub (float_of_int (int (NUMBER_USED_PIXELS cfg))) u1\<rceil>]
       @ [Show, Delay 30]
       @ map (\<lambda>i. SetPixelColor (of_nat i) (COLOR_DARK_RED cfg))
             [nat \<lfloor>u2\<rfloor>..<nat \<lceil>fsub (float_of_int (int (NUMBER_USED_PIXELS cfg))) u2\<rceil>]
       @ [Show, Delay 20] \<and>
     count_list (calls w') Show = count_list (calls w) Show + 2"
proof -
  obtain w' where d: "BrakingEvent_Draw cfg ev w = Some w'"
    and c: "calls w' = calls w
       @ map (\<lambda>i. SetPixelColor (of_nat i) (COLOR_RED cfg))
             [nat \<lfloor>u1\<rfloor>..<nat \<lceil>fsub (float_of_int (int (NUMBER_USED_PIXELS cfg))) u1\<rceil>]
       @ [Show, Delay 30]
       @ map (\<lambda>i. SetPixelColor (of_nat i) (COLOR_DARK_RED cfg))
             [nat \<lfloor>u2\<rfloor>..<nat \<lceil>fsub (float_of_int (int (NUMBER_USED_PIXELS cfg))) u2\<rceil>]
       @ [Show, Delay 20]"
    using BrakingEvent_Draw_bloom [OF assms refl refl] by blast
  have "count_list (calls w') Show = count_list (calls w) Show + 2"
    unfolding c by simp
  then show ?thesis using d c by blast
qed

theorem BrakingEvent_bloom_strobe_witness:
  "GetActive event_on \<and> fst (TimeElapsedTotal event_on (world_readings 250 250 280)) < 1 / 2 \<and>
   NUMBER_USED_PIXELS strip10 \<le> 65535 \<and>
   calls (the (BrakingEvent_Draw strip10 event_on (world_readings 250 250 280))) =
     [SetPixelColor 1 0xFF0000, SetPixelColor 2 0xFF0000, SetPixelColor 3 0xFF0000,
      SetPixelColor 4 0xFF0000, SetPixelColor 5 0xFF0000, SetPixelColor 6 0xFF0000,
      SetPixelColor 7 0xFF0000, Show, Delay 30,
      SetPixelColor 1 0x400000, SetPixelColor 2 0x400000, SetPixelColor 3 0x400000,
      SetPixelColor 4 0x400000, SetPixelColor 5 0x400000, SetPixelColor 6 0x400000,
      SetPixelColor 7 0x400000, SetPixelColor 8 0x400000, Show, Delay 20] \<and>
   count_list (calls (the (BrakingEvent_Draw strip10 event_on (world_readings 250 250 280)))) Show = 2 \<and>
   fsub (float_of_int (int (NUMBER_USED_PIXELS strip10)))
        (unusedEachEnd strip10 (fst (TimeElapsedTotal event_on
           ((world_readings 250 250 280)\<lparr>reads := Suc (reads (world_readings 250 250 280))\<rparr>)))) = 8 \<and>
   (8 :: rat) < 10 - unusedEachEnd strip10 (fst (TimeElapsedTotal event_on
       ((world_readings 250 250 280)\<lparr>reads := Suc (reads (world_readings 250 250 280))\<rparr>)))"
proof -
  have n: "NUMBER_USED_PIXELS strip10 \<le> 65535" by (simp add: strip10_values)
  obtain w' where d: "BrakingEvent_Draw strip10 event_on (world_readings 250 250 280) = Some w'"
    and c: "calls w' = calls (world_readings 250 250 280)
       @ map (\<lambda>i. SetPixelColor (of_nat i) (COLOR_RED strip10)) [Suc 0..<8] @ [Show, Delay 30]
       @ map (\<lambda>i. SetPixelColor (of_nat i) (COLOR_DARK_RED strip10)) [Suc 0..<9] @ [Show, Delay 20]"
    and k: "count_list (calls w') Show = count_list (calls (world_readings 250 250 280)) Show + 2"
    using BrakingEvent_bloom_strobe [OF event_on_active bloom_250_280(1) n refl refl]
    by (simp only: bloom_250_280) (simp, blast)
  have "calls w' =
     [SetPixelColor 1 0xFF0000, SetPixelColor 2 0xFF0000, SetPixelColor 3 0xFF0000,
      SetPixelColor 4 0xFF0000, SetPixelColor 5 0xFF0000, SetPixelColor 6 0xFF0000,
      SetPixelColor 7 0xFF0000, Show, Delay 30,
      SetPixelColor 1 0x400000, SetPixelColor 2 0x400000, SetPixelColor 3 0x400000,
      SetPixelColor 4 0x400000, SetPixelColor 5 0x400000, SetPixelColor 6 0x400000,
      SetPixelColor 7 0x400000, SetPixelColor 8 0x400000, Show, Delay 20]"
    by (simp add: c upt_more strip10_values world_readings_fields)
  moreover have "count_list (calls w') Show = 2" using k by (simp add: world_readings_fields)
  ultimately show ?thesis
    using event_on_active bloom_250_280(1,3,6) n d by simp
qed

text \<open>
  The claim C4 as stated, with the bar \<open>[unusedEachEnd, NUMBER_USED_PIXELS - unusedEachEnd)\<close>,
  fails: on a strip of 8 pixels with clock readings 0, 0 and 30 ms the first margin is about
  3.6, and pixel 3, which lies below it, is set to red and then to dark red.
\<close>

theorem BrakingEvent_bar_below_margin:
  "calls (the (BrakingEvent_Draw strip8 event_on (world_readings 0 0 30))) =
     [SetPixelColor 3 0xFF0000, SetPixelColor 4 0xFF0000, Show, Delay 30,
      SetPixelColor 3 0x400000, SetPixelColor 4 0x400000, Show, Delay 20] \<and>
   (3 :: rat) < unusedEachEnd strip8 (fst (TimeElapsedTotal event_on
       ((world_readings 0 0 30)\<lparr>reads := Suc (reads (world_readings 0 0 30))\<rparr>)))"
  using Draw_bloom_0_30 bloom_0_30(6) by auto

text \<open>
  C10, as amended. During the bloom and strobe phase every \<^verbatim>\<open>setPixelColor\<close> call of
  \<^verbatim>\<open>BrakingEvent::Draw\<close> has an index \<open>p\<close> inside one of the two bars, that is with
  \<open>\<lfloor>u\<rfloor> \<le> p\<close> (the margin truncated to an integer) and \<open>p\<close> below the float
  \<open>NUMBER_USED_PIXELS - u\<close>, for the margin \<open>u\<close> of the red or of the dark-red pass. Every
  pixel outside both bars is not written at all: it keeps the colour the buffer held before
  the call.
\<close>

theorem BrakingEvent_bloom_margins_untouched:
  assumes "GetActive ev" and "fst (TimeElapsedTotal ev w) < 1 / 2"
    and "NUMBER_USED_PIXELS cfg \<le> 65535"
    and "u1 = unusedEachEnd cfg (fst (TimeElapsedTotal ev (w\<lparr>reads := Suc (reads w)\<rparr>)))"
    and "u2 = unusedEachEnd cfg (fst (TimeElapsedTotal ev (w\<lparr>reads := Suc (Suc (reads w))\<rparr>)))"
    and "x1 = fsub (float_of_int (int (NUMBER_USED_PIXELS cfg))) u1"
    and "x2 = fsub (float_of_int (int (NUMBER_USED_PIXELS cfg))) u2"
  shows "\<exists>w'. BrakingEvent_Draw cfg ev w = Some w' \<and>
     (\<forall>p c. SetPixelColor p c \<in> set (drop (length (calls w)) (calls w')) \<longrightarrow>
        (\<lfloor>u1\<rfloor> \<le> uint p \<and> of_int (uint p) < x1) \<or> (\<lfloor>u2\<rfloor> \<le> uint p \<and> of_int (uint p) < x2)) \<and>
     (\<forall>p. \<not> (\<lfloor>u1\<rfloor> \<le> uint p \<and> of_int (uint p) < x1) \<and>
          \<not> (\<lfloor>u2\<rfloor> \<le> uint p \<and> of_int (uint p) < x2) \<longrightarrow> pixels w' p = pixels w p)"
proof -
  define r1 where "r1 = [nat \<lfloor>u1\<rfloor>..<nat \<lceil>x1\<rceil>]"
  define r2 where "r2 = [nat \<lfloor>u2\<rfloor>..<nat \<lceil>x2\<rceil>]"
  have n24: "NUMBER_USED_PIXELS cfg < 2 ^ 24" using assms(3) by simp
  have u1: "0 \<le> u1"
    using unusedEachEnd_bounds [OF TimeElapsedTotal_nonneg [of ev "w\<lparr>reads := Suc (reads w)\<rparr>"] n24]
    by (simp add: assms(4))
  have u2: "0 \<le> u2"
    using unusedEachEnd_bounds [OF TimeElapsedTotal_nonneg [of ev "w\<lparr>reads := Suc (Suc (reads w))\<rparr>"] n24]
    by (simp add: assms(5))
  have m1: "p \<in> of_nat ` set r1 \<longleftrightarrow> \<lfloor>u1\<rfloor> \<le> uint p \<and> of_int (uint p) < x1" for p :: "16 word"
    unfolding r1_def by (rule in_bar_iff [OF u1 assms(3) assms(6)])
  have m2: "p \<in> of_nat ` set r2 \<longleftrightarrow> \<lfloor>u2\<rfloor> \<le> uint p \<and> of_int (uint p) < x2" for p :: "16 word"
    unfolding r2_def by (rule in_bar_iff [OF u2 assms(3) assms(7)])
  obtain w' where d: "BrakingEvent_Draw cfg ev w = Some w'"
    and c: "calls w' = calls w @ map (\<lambda>i. SetPixelColor (of_nat i) (COLOR_RED cfg)) r1 @ [Show, Delay 30]
                        @ map (\<lambda>i. SetPixelColor (of_nat i) (COLOR_DARK_RED cfg)) r2 @ [Show, Delay 20]"
    and p: "\<And>p. pixels w' p = (if p \<in> of_nat ` set r2 then COLOR_DARK_RED cfg
                          else if p \<in> of_nat ` set r1 then COLOR_RED cfg else pixels w p)"
    using BrakingEvent_Draw_bloom [OF assms(1-5), of r1 r2] unfolding r1_def r2_def assms(6,7)
    by blast
  have a: "(\<lfloor>u1\<rfloor> \<le> uint q \<and> of_int (uint q) < x1) \<or> (\<lfloor>u2\<rfloor> \<le> uint q \<and> of_int (uint q) < x2)"
    if "SetPixelColor q c \<in> set (drop (length (calls w)) (calls w'))" for q c
  proof -
    from that have "q \<in> of_nat ` set r1 \<or> q \<in> of_nat ` set r2" unfolding c by auto
    then show ?thesis by (simp only: m1 m2)
  qed
  have b: "pixels w' q = pixels w q"
    if "\<not> (\<lfloor>u1\<rfloor> \<le> uint q \<and> of_int (uint q) < x1) \<and> \<not> (\<lfloor>u2\<rfloor> \<le> uint q \<and> of_int (uint q) < x2)" for q
  proof -
    from that have "q \<notin> of_nat ` set r1" "q \<notin> of_nat ` set r2"
      unfolding m1 m2 by blast+
    then show ?thesis by (simp add: p)
  qed
  show ?thesis using d a b by blast
qed

theorem BrakingEvent_bloom_margins_untouched_witness:
  "GetActive event_on \<and> fst (TimeElapsedTotal event_on (world_at 100)) < 1 / 2 \<and>
   NUMBER_USED_PIXELS strip8 \<le> 65535 \<and>
   SetPixelColor 2 0xFF0000 \<in> set (calls (the (BrakingEvent_Draw strip8 event_on (world_at 100)))) \<and>
   \<lfloor>unusedEachEnd strip8 (fst (TimeElapsedTotal event_on (world_at 100)))\<rfloor> \<le> uint (2 :: 16 word) \<and>
   of_int (uint (2 :: 16 word)) <
     fsub (float_of_int (int (NUMBER_USED_PIXELS strip8)))
          (unusedEachEnd strip8 (fst (TimeElapsedTotal event_on (world_at 100)))) \<and>
   \<not> \<lfloor>unusedEachEnd strip8 (fst (TimeElapsedTotal event_on (world_at 100)))\<rfloor> \<le> uint (1 :: 16 word) \<and>
   pixels (the (BrakingEvent_Draw strip8 event_on (world_at 100))) 1 = pixels (world_at 100) 1"
proof -
  have n: "NUMBER_USED_PIXELS strip8 \<le> 65535" by (simp add: strip8_values)
  define u where "u = unusedEachEnd strip8 (fst (TimeElapsedTotal event_on (world_at 100)))"
  define x where "x = fsub (float_of_int (int (NUMBER_USED_PIXELS strip8))) u"
  have fl: "\<lfloor>u\<rfloor> = 2" by (simp add: u_def bloom_at_100)
  obtain w' where d: "BrakingEvent_Draw strip8 event_on (world_at 100) = Some w'"
    and a: "\<And>p c. SetPixelColor p c \<in> set (drop (length (calls (world_at 100))) (calls w')) \<Longrightarrow>
        (\<lfloor>u\<rfloor> \<le> uint p \<and> of_int (uint p) < x) \<or> (\<lfloor>u\<rfloor> \<le> uint p \<and> of_int (uint p) < x)"
    and b: "\<And>p. \<not> (\<lfloor>u\<rfloor> \<le> uint p \<and> of_int (uint p) < x) \<and>
          \<not> (\<lfloor>u\<rfloor> \<le> uint p \<and> of_int (uint p) < x) \<Longrightarrow> pixels w' p = pixels (world_at 100) p"
    using BrakingEvent_bloom_margins_untouched [OF event_on_active bloom_at_100(1) n refl refl refl refl]
    unfolding world_at_elapsed u_def [symmetric] x_def [symmetric]
    by blast
  obtain v where v: "BrakingEvent_Draw strip8 event_on (world_at 100) = Some v"
    and cv: "calls v = [SetPixelColor 2 0xFF0000, SetPixelColor 3 0xFF0000, SetPixelColor 4 0xFF0000,
                 SetPixelColor 5 0xFF0000, Show, Delay 30,
                 SetPixelColor 2 0x400000, SetPixelColor 3 0x400000, SetPixelColor 4 0x400000,
                 SetPixelColor 5 0x400000, Show, Delay 20]"
    using Draw_bloom_at_100 by blast
  have vw: "v = w'" using v d by simp
  have m: "SetPixelColor 2 0xFF0000 \<in> set (drop (length (calls (world_at 100))) (calls w'))"
    by (simp add: vw [symmetric] cv world_at_def)
  have in2: "\<lfloor>u\<rfloor> \<le> uint (2 :: 16 word) \<and> of_int (uint (2 :: 16 word)) < x"
    using a [OF m] by blast
  have out1: "\<not> \<lfloor>u\<rfloor> \<le> uint (1 :: 16 word)" by (simp add: fl)
  then have keep: "pixels w' 1 = pixels (world_at 100) 1" using b [of 1] by blast
  have m': "SetPixelColor 2 0xFF0000 \<in> set (calls w')" by (simp add: vw [symmetric] cv)
  show ?thesis
    using event_on_active bloom_at_100(1) n m' in2 out1 keep
    unfolding d option.sel u_def x_def by blast
qed

text \<open>
  The claim C10 as stated fails for the same reason as C4: on a strip of 8 pixels at elapsed
  time 0, pixel 3 lies below the margin of both passes (about 3.6), it is black before the
  call and dark red after it.
\<close>

theorem BrakingEvent_margin_pixel_written:
  "of_int (uint (3 :: 16 word)) < unusedEachEnd strip8 (fst (TimeElapsedTotal event_on (world_at 0))) \<and>
   pixels (world_at 0) 3 = 0 \<and>
   pixels (the (BrakingEvent_Draw strip8 event_on (world_at 0))) 3 = 0x400000"
  using Draw_bloom_at_0 bloom_at_0(4) by (auto simp: world_at_def)

section \<open>SignalEvent\<close>

lemma Sequential_values:
  "SequentialBloomTime = 1 / 2" "SequentialHoldStart = 1 / 2" "SequentialFadeStart = 3 / 4"
  "SequentialOffStart = 7 / 8" "SequentialCycleTime = 9 / 8"
  by (code_simp)+

lemma SetTurnLED_if:
  "(\<lambda>i. if P i then SetTurnLED cfg st i a else SetTurnLED cfg st i b) =
   (\<lambda>i. SetTurnLED cfg st i (if P i then a else b))"
  by (rule ext) simp

lemma SignalEvent_Draw_form:
  assumes a: "GetActive ev"
  shows "\<exists>col. SignalEvent_Draw cfg ev w =
     Inr (strip_show (fold (\<lambda>i. SetTurnLED cfg (style ev) i (col i))
                        [0..<NUMBER_TURN_PIXELS cfg] (w\<lparr>reads := Suc (reads w)\<rparr>)))"
proof -
  define cp where "cp = fmod (fst (TimeElapsedTotal ev w)) SequentialCycleTime"
  define n where "n = NUMBER_TURN_PIXELS cfg"
  define w1 where "w1 = w\<lparr>reads := Suc (reads w)\<rparr>"
  have hold: "SequentialHoldStart = SequentialBloomTime" by (simp add: Sequential_values)
  consider (off) "SequentialOffStart < cp"
    | (fade) "\<not> SequentialOffStart < cp" "SequentialFadeStart < cp"
    | (hold) "\<not> SequentialOffStart < cp" "\<not> SequentialFadeStart < cp" "SequentialHoldStart < cp"
    | (bloom) "\<not> SequentialOffStart < cp" "\<not> SequentialFadeStart < cp" "\<not> SequentialHoldStart < cp"
    by blast
  then show ?thesis
  proof cases
    case off
    then have "SignalEvent_Draw cfg ev w =
        Inr (strip_show (fold (\<lambda>i. SetTurnLED cfg (style ev) i (COLOR_BLACK cfg)) [0..<n] w1))"
      using a by (simp add: SignalEvent_Draw_def split_beta Let_def for_int_fold
          flip: cp_def n_def w1_def)
    then show ?thesis unfolding n_def w1_def 
      by (rule exI [where x = "\<lambda>i. COLOR_BLACK cfg"])
  next
    case fade
    define lit where "lit = int_of_float (fsub (float_of_int (int n))
        (fmul (float_of_int (int n)) (fdiv (fsub cp SequentialFadeStart) SequentialFadeTime)))"
    from fade have "SignalEvent_Draw cfg ev w =
        Inr (strip_show (fold (\<lambda>i. SetTurnLED cfg (style ev) i
               (if int i < lit then COLOR_AMBER cfg else COLOR_BLACK cfg)) [0..<n] w1))"
      using a by (simp add: SignalEvent_Draw_def split_beta Let_def for_int_fold SetTurnLED_if
          flip: cp_def n_def w1_def lit_def)
    then show ?thesis unfolding n_def w1_def 
      by (rule exI [where x = "\<lambda>i. if int i < lit then COLOR_AMBER cfg else COLOR_BLACK cfg"])
  next
    case hold
    then have "SignalEvent_Draw cfg ev w =
        Inr (strip_show (fold (\<lambda>i. SetTurnLED cfg (style ev) i (COLOR_AMBER cfg)) [0..<n] w1))"
      using a by (simp add: SignalEvent_Draw_def split_beta Let_def for_int_fold
          flip: cp_def n_def w1_def)
    then show ?thesis unfolding n_def w1_def 
      by (rule exI [where x = "\<lambda>i. COLOR_AMBER cfg"])
  next
    case bloom
    define lit where "lit = int_of_float (fmul (float_of_int (int n)) (fdiv cp SequentialBloomTime))"
    from bloom have le: "cp \<le> SequentialBloomTime" by (simp add: hold)
    from bloom le have "SignalEvent_Draw cfg ev w =
        Inr (strip_show (fold (\<lambda>i. SetTurnLED cfg (style ev) i
               (if int n - lit \<le> int i then COLOR_AMBER cfg else COLOR_BLACK cfg)) [0..<n] w1))"
      using a by (simp add: SignalEvent_Draw_def split_beta Let_def for_int_fold SetTurnLED_if
          flip: cp_def n_def w1_def lit_def)
    then show ?thesis unfolding n_def w1_def 
      by (rule exI [where x = "\<lambda>i. if int (NUMBER_TURN_PIXELS cfg) - lit \<le> int i then COLOR_AMBER cfg else COLOR_BLACK cfg"])
  qed
qed

lemma hazard_on_facts: "GetActive hazard_on" "style hazard_on = HAZARD"
  by (simp_all add: GetActive_def hazard_on_def)

lemma hazard_at_300:
  "\<not> SequentialOffStart < fmod (fst (TimeElapsedTotal hazard_on (world_at 300))) SequentialCycleTime"
  "\<not> SequentialFadeStart < fmod (fst (TimeElapsedTotal hazard_on (world_at 300))) SequentialCycleTime"
  "\<not> SequentialHoldStart < fmod (fst (TimeElapsedTotal hazard_on (world_at 300))) SequentialCycleTime"
  "calls (projr (SignalEvent_Draw strip8 hazard_on (world_at 300))) =
     [SetPixelColor 0 0, SetPixelColor 7 0, SetPixelColor 1 0, SetPixelColor 6 0,
      SetPixelColor 2 0xFFBF00, SetPixelColor 5 0xFFBF00, Show]"
  "pixels (projr (SignalEvent_Draw strip8 hazard_on (world_at 300))) 2 = 0xFFBF00"
  by code_simp+

text \<open>
  C9. The assertion of the bloom branch of \<^verbatim>\<open>SignalEvent::Draw\<close> never fails: no call
  returns the fault \<open>AssertionFailed\<close>, whatever the configuration, the event and the clock.
  The reason is that the bloom branch is reached only with a cycle position that is not
  greater than any of the three later phase starts, and such a position is at most
  \<^verbatim>\<open>SequentialBloomTime\<close> (0.5), since \<^verbatim>\<open>SequentialHoldStart\<close> is \<open>0.0 + 0.5\<close>.
\<close>

theorem SignalEvent_assertion_holds:
  "SignalEvent_Draw cfg ev w \<noteq> Inl AssertionFailed \<and>
   (\<not> SequentialOffStart < cp \<and> \<not> SequentialFadeStart < cp \<and> \<not> SequentialHoldStart < cp
      \<longrightarrow> cp \<le> SequentialBloomTime)"
proof -
  have "SignalEvent_Draw cfg ev w \<noteq> Inl AssertionFailed"
  proof (cases "GetActive ev")
    case True
    then show ?thesis using SignalEvent_Draw_form [of ev cfg w] by auto
  next
    case False
    then show ?thesis by (simp add: SignalEvent_Draw_def)
  qed
  then show ?thesis by (simp add: Sequential_values)
qed

theorem SignalEvent_assertion_holds_witness:
  "\<not> SequentialOffStart < fmod (fst (TimeElapsedTotal hazard_on (world_at 300))) SequentialCycleTime \<and>
   \<not> SequentialFadeStart < fmod (fst (TimeElapsedTotal hazard_on (world_at 300))) SequentialCycleTime \<and>
   \<not> SequentialHoldStart < fmod (fst (TimeElapsedTotal hazard_on (world_at 300))) SequentialCycleTime \<and>
   fmod (fst (TimeElapsedTotal hazard_on (world_at 300))) SequentialCycleTime \<le> SequentialBloomTime \<and>
   SignalEvent_Draw strip8 hazard_on (world_at 300) \<noteq> Inl AssertionFailed"
  using SignalEvent_assertion_holds [of strip8 hazard_on "world_at 300"
      "fmod (fst (TimeElapsedTotal hazard_on (world_at 300))) SequentialCycleTime"]
    hazard_at_300(1,2,3)
  by blast

lemma calls_fold_hazard:
  "calls (fold (\<lambda>i. SetTurnLED cfg HAZARD i (col i)) xs w) =
   calls w @ concat (map (\<lambda>i. [SetPixelColor (of_nat i) (col i),
                                SetPixelColor (word_of_int (int (NUMBER_USED_PIXELS cfg) - 1 - int i)) (col i)]) xs)"
  by (induction xs arbitrary: w) (simp_all add: SetTurnLED_def setPixelColor_def)

lemma pixels_SetTurnLED_hazard:
  "pixels (SetTurnLED cfg HAZARD k c v) p =
     (if p = word_of_int (int (NUMBER_USED_PIXELS cfg) - 1 - int k) then c
      else if p = of_nat k then c else pixels v p)"
  by (simp add: SetTurnLED_def setPixelColor_def)

lemma pixels_fold_hazard_mirror:
  "j \<in> set xs \<Longrightarrow>
   pixels (fold (\<lambda>i. SetTurnLED cfg HAZARD i (col i)) xs w) (of_nat j) =
   pixels (fold (\<lambda>i. SetTurnLED cfg HAZARD i (col i)) xs w)
          (word_of_int (int (NUMBER_USED_PIXELS cfg) - 1 - int j))"
proof (induction xs arbitrary: j rule: rev_induct)
  case Nil
  then show ?case by simp
next
  case (snoc k xs)
  define M :: "16 word" where "M = word_of_int (int (NUMBER_USED_PIXELS cfg) - 1)"
  have m: "word_of_int (int (NUMBER_USED_PIXELS cfg) - 1 - int i) = M - of_nat i" for i
    by (simp add: M_def)
  define v where "v = fold (\<lambda>i. SetTurnLED cfg HAZARD i (col i)) xs w"
  have step: "pixels (fold (\<lambda>i. SetTurnLED cfg HAZARD i (col i)) (xs @ [k]) w) p =
        (if p = M - of_nat k then col k else if p = of_nat k then col k else pixels v p)" for p
    by (simp only: fold_append fold.simps comp_apply id_apply pixels_SetTurnLED_hazard m v_def)
  show ?case
  proof (cases "(of_nat j :: 16 word) = of_nat k \<or> (of_nat j :: 16 word) = M - of_nat k")
    case True
    then show ?thesis unfolding step m by auto
  next
    case False
    then have jk: "j \<noteq> k" by auto
    then have "j \<in> set xs" using snoc.prems by simp
    then have ih: "pixels v (of_nat j) = pixels v (M - of_nat j)"
      using snoc.IH [of j] by (simp only: v_def m)
    have inv: "M - a = b \<Longrightarrow> a = M - b" for a b :: "16 word" by auto
    have "M - of_nat j \<noteq> M - of_nat k" "M - (of_nat j :: 16 word) \<noteq> of_nat k"
      using False inv [of "of_nat j" "of_nat k"] by auto
    then show ?thesis unfolding step m using False ih by simp
  qed
qed

text \<open>
  C8. For an active \<^verbatim>\<open>SignalEvent\<close> of style \<^verbatim>\<open>HAZARD\<close>, at every clock reading,
  \<^verbatim>\<open>Draw()\<close> makes for each signal index \<open>i = 0 .. NUMBER_TURN_PIXELS - 1\<close>, in order, two
  writes of one and the same colour \<open>col i\<close>: to pixel \<open>i\<close> and to pixel
  \<open>NUMBER_USED_PIXELS - 1 - i\<close>; then it flushes. In the resulting buffer the two pixels of
  each signal index hold the same colour.
\<close>

theorem Hazard_mirrors_both_ends:
  assumes "GetActive ev" and "style ev = HAZARD"
  shows "\<exists>col w'. SignalEvent_Draw cfg ev w = Inr w' \<and>
     calls w' = calls w @
       concat (map (\<lambda>i. [SetPixelColor (of_nat i) (col i),
                          SetPixelColor (word_of_int (int (NUMBER_USED_PIXELS cfg) - 1 - int i)) (col i)])
                   [0..<NUMBER_TURN_PIXELS cfg]) @ [Show] \<and>
     (\<forall>i < NUMBER_TURN_PIXELS cfg.
        pixels w' (of_nat i) = pixels w' (word_of_int (int (NUMBER_USED_PIXELS cfg) - 1 - int i)))"
proof -
  obtain col where d: "SignalEvent_Draw cfg ev w =
     Inr (strip_show (fold (\<lambda>i. SetTurnLED cfg HAZARD i (col i))
                        [0..<NUMBER_TURN_PIXELS cfg] (w\<lparr>reads := Suc (reads w)\<rparr>)))"
    using SignalEvent_Draw_form [OF assms(1), of cfg w] assms(2) by auto
  show ?thesis
    unfolding d
    by (rule exI [where x = col], rule exI, intro conjI, rule refl)
       (simp_all add: strip_show_def calls_fold_hazard pixels_fold_hazard_mirror)
qed

theorem Hazard_mirrors_both_ends_witness:
  "GetActive hazard_on \<and> style hazard_on = HAZARD \<and> (2 :: nat) < NUMBER_TURN_PIXELS strip8 \<and>
   calls (projr (SignalEvent_Draw strip8 hazard_on (world_at 300))) =
     [SetPixelColor 0 0, SetPixelColor 7 0, SetPixelColor 1 0, SetPixelColor 6 0,
      SetPixelColor 2 0xFFBF00, SetPixelColor 5 0xFFBF00, Show] \<and>
   pixels (projr (SignalEvent_Draw strip8 hazard_on (world_at 300))) 2 = 0xFFBF00 \<and>
   pixels (projr (SignalEvent_Draw strip8 hazard_on (world_at 300))) 2 =
   pixels (projr (SignalEvent_Draw strip8 hazard_on (world_at 300))) 5"
proof -
  obtain w' where d: "SignalEvent_Draw strip8 hazard_on (world_at 300) = Inr w'"
    and s: "\<And>i. i < NUMBER_TURN_PIXELS strip8 \<Longrightarrow>
        pixels w' (of_nat i) = pixels w' (word_of_int (int (NUMBER_USED_PIXELS strip8) - 1 - int i))"
    using Hazard_mirrors_both_ends [OF hazard_on_facts, of strip8 "world_at 300"] by blast
  have "pixels w' 2 = pixels w' 5" using s [of 2] by (simp add: strip8_values)
  then have "pixels (projr (SignalEvent_Draw strip8 hazard_on (world_at 300))) 2 =
      pixels (projr (SignalEvent_Draw strip8 hazard_on (world_at 300))) 5"
    by (simp add: d)
  then show ?thesis
    using hazard_on_facts hazard_at_300(4,5) by (simp add: strip8_values)
qed

section \<open>PoliceLightBar\<close>

lemma police_pixels_ok:
  assumes sz: "0 < sz" and N: "NUMBER_USED_PIXELS cfg \<le> 65535"
    and idx: "\<And>j. j < NUMBER_USED_PIXELS cfg \<Longrightarrow> j div sz < 8"
  shows "police_pixels cfg row sz i w =
    Some (Inr (fold (\<lambda>j. setPixelColor (of_nat j) (sectionColor row ! (j div sz)))
                 [unat i..<NUMBER_USED_PIXELS cfg] w))"
proof (induction "NUMBER_USED_PIXELS cfg - unat i" arbitrary: i w)
  case 0
  then have "NUMBER_USED_PIXELS cfg \<le> unat i" by simp
  then show ?case by (subst police_pixels.simps) (simp add: uint_less_int_iff)
next
  case (Suc n)
  then have lt: "unat i < NUMBER_USED_PIXELS cfg" by simp
  have "unat i < 65535" using lt N by simp
  then have s: "unat (i + 1) = Suc (unat i)" by (simp add: unat_word_ariths)
  have n: "n = NUMBER_USED_PIXELS cfg - unat (i + 1)" using Suc(2) s by simp
  have l: "[unat i..<NUMBER_USED_PIXELS cfg] = unat i # [unat (i + 1)..<NUMBER_USED_PIXELS cfg]"
    using lt by (simp add: upt_conv_Cons s)
  have k: "\<not> 8 \<le> iSection sz i" using idx [OF lt] by (simp add: iSection_def)
  have "police_pixels cfg row sz i w =
        police_pixels cfg row sz (i + 1) (setPixelColor i (sectionColor row ! iSection sz i) w)"
    using lt sz k by (subst police_pixels.simps) (simp add: uint_less_int_iff)
  also have "\<dots> = Some (Inr (fold (\<lambda>j. setPixelColor (of_nat j) (sectionColor row ! (j div sz)))
                 [unat (i + 1)..<NUMBER_USED_PIXELS cfg]
                 (setPixelColor i (sectionColor row ! iSection sz i) w)))"
    by (rule Suc(1)[OF n])
  also have "\<dots> = Some (Inr (fold (\<lambda>j. setPixelColor (of_nat j) (sectionColor row ! (j div sz)))
                 [unat i..<NUMBER_USED_PIXELS cfg] w))"
    by (simp add: l iSection_def)
  finally show ?case .
qed

lemma police_pixels_empty:
  "NUMBER_USED_PIXELS cfg = 0 \<Longrightarrow> police_pixels cfg row sz i w = Some (Inr w)"
  by (subst police_pixels.simps) (simp add: uint_less_int_iff)

lemma police_pixels_dvd:
  assumes d: "8 dvd NUMBER_USED_PIXELS cfg" and N: "NUMBER_USED_PIXELS cfg \<le> 65535"
  shows "police_pixels cfg row (NUMBER_USED_PIXELS cfg div 8) 0 w =
    Some (Inr (fold (\<lambda>j. setPixelColor (of_nat j)
                            (sectionColor row ! (j div (NUMBER_USED_PIXELS cfg div 8))))
                 [0..<NUMBER_USED_PIXELS cfg] w))"
proof (cases "NUMBER_USED_PIXELS cfg = 0")
  case True
  then show ?thesis by (simp add: police_pixels_empty)
next
  case False
  obtain k where k: "NUMBER_USED_PIXELS cfg = 8 * k" using d by (elim dvdE)
  then have kp: "0 < k" using False by simp
  have "j div k < 8" if "j < NUMBER_USED_PIXELS cfg" for j
    using that kp k by (simp add: less_mult_imp_div_less mult.commute)
  then show ?thesis
    using police_pixels_ok [of "NUMBER_USED_PIXELS cfg div 8" cfg row 0 w] kp N k by simp
qed

lemma police_rows_dvd:
  assumes d: "8 dvd NUMBER_USED_PIXELS cfg" and N: "NUMBER_USED_PIXELS cfg \<le> 65535"
  shows "police_rows cfg (NUMBER_USED_PIXELS cfg div 8) rows w =
    Some (Inr (fold (\<lambda>row w. delay (duration row) (strip_show
                 (fold (\<lambda>j. setPixelColor (of_nat j)
                            (sectionColor row ! (j div (NUMBER_USED_PIXELS cfg div 8))))
                    [0..<NUMBER_USED_PIXELS cfg] w))) rows w))"
  by (induction rows arbitrary: w) (simp_all add: police_pixels_dvd [OF d N])

lemma calls_police_frames:
  "calls (fold (\<lambda>row w. delay (duration row) (strip_show
                 (fold (\<lambda>j. setPixelColor (f j) (c row j)) xs w))) rows w) =
   calls w @ concat (map (\<lambda>row. map (\<lambda>j. SetPixelColor (f j) (c row j)) xs
                                  @ [Show, Delay (duration row)]) rows)"
  by (induction rows arbitrary: w) (simp_all add: delay_def strip_show_def calls_fold_set)

lemma reads_police_frames:
  "reads (fold (\<lambda>row w. delay (duration row) (strip_show
                 (fold (\<lambda>j. setPixelColor (f j) (c row j)) xs w))) rows w) = reads w"
  by (induction rows arbitrary: w) (simp_all add: delay_def strip_show_def)

text \<open>
  C3, as amended. On a strip whose pixel count is a multiple of 8 (so that every section
  index is inside the 8-entry \<^verbatim>\<open>sectionColor\<close> array) and fits the 16-bit loop counter, one call
  of \<^verbatim>\<open>PoliceLightBar::Draw\<close> on an active event plays the whole table, from row 0, in
  table order: for each of the 11 rows it sets every usable pixel \<open>i\<close> to the row's colour
  of section \<open>i / (NUMBER_USED_PIXELS / 8)\<close>, flushes and holds for the row's duration. That
  makes exactly 11 flushes. The call never reads the clock and the sequence does not mention
  the event's start: it is the same at every elapsed time.
\<close>

theorem PoliceLightBar_plays_table:
  assumes "GetActive ev" and "8 dvd NUMBER_USED_PIXELS cfg" and "NUMBER_USED_PIXELS cfg \<le> 65535"
  shows "\<exists>w'. PoliceLightBar_Draw cfg ev w = Some (Inr w') \<and>
     calls w' = calls w @ concat (map
        (\<lambda>row. map (\<lambda>i. SetPixelColor (of_nat i)
                          (sectionColor row ! (i div (NUMBER_USED_PIXELS cfg div 8))))
                   [0..<NUMBER_USED_PIXELS cfg]
              @ [Show, Delay (duration row)])
        (PoliceBarStates1 cfg)) \<and>
     length (PoliceBarStates1 cfg) = 11 \<and>
     count_list (calls w') Show = count_list (calls w) Show + 11 \<and>
     reads w' = reads w"
  using assms(1)
  by (simp add: PoliceLightBar_Draw_def police_rows_dvd [OF assms(2,3)] calls_police_frames
      reads_police_frames) (simp add: PoliceBarStates1_def Let_def)

theorem PoliceLightBar_plays_table_witness:
  "GetActive event_on \<and> 8 dvd NUMBER_USED_PIXELS strip8 \<and> NUMBER_USED_PIXELS strip8 \<le> 65535 \<and>
   take 10 (calls (projr (the (PoliceLightBar_Draw strip8 event_on (world_at 0))))) =
     [SetPixelColor 0 0x0000FF, SetPixelColor 1 0x0000FF, SetPixelColor 2 0xFF0000,
      SetPixelColor 3 0xFF0000, SetPixelColor 4 0x0000FF, SetPixelColor 5 0x0000FF,
      SetPixelColor 6 0xFF0000, SetPixelColor 7 0xFF0000, Show, Delay 200] \<and>
   length (calls (projr (the (PoliceLightBar_Draw strip8 event_on (world_at 0))))) = 110 \<and>
   count_list (calls (projr (the (PoliceLightBar_Draw strip8 event_on (world_at 0))))) Show = 11"
proof -
  have a: "GetActive event_on" by (simp add: GetActive_def event_on_def)
  have n: "8 dvd NUMBER_USED_PIXELS strip8" "NUMBER_USED_PIXELS strip8 \<le> 65535"
    by (simp_all add: strip8_def)
  have v: "NUMBER_USED_PIXELS strip8 = 8" "COLOR_RED strip8 = 0xFF0000" "COLOR_BLUE strip8 = 0x0000FF"
    "COLOR_WHITE strip8 = 0xFFFFFF"
    by (simp_all add: strip8_def)
  obtain w' where w': "PoliceLightBar_Draw strip8 event_on (world_at 0) = Some (Inr w')"
    and c: "calls w' = calls (world_at 0) @ concat (map
        (\<lambda>row. map (\<lambda>i. SetPixelColor (of_nat i)
                          (sectionColor row ! (i div (NUMBER_USED_PIXELS strip8 div 8))))
                   [0..<NUMBER_USED_PIXELS strip8]
              @ [Show, Delay (duration row)])
        (PoliceBarStates1 strip8))"
    and k: "count_list (calls w') Show = count_list (calls (world_at 0)) Show + 11"
    using PoliceLightBar_plays_table [OF a n] by blast
  have c': "calls w' = concat (map
        (\<lambda>row. map (\<lambda>i. SetPixelColor (of_nat i) (sectionColor row ! i)) [0, 1, 2, 3, 4, 5, 6, 7]
              @ [Show, Delay (duration row)])
        (PoliceBarStates1 strip8))"
    using c by (simp add: v upt8 world_at_def)
  show ?thesis
    using a n w' k by (simp add: c') (simp add: PoliceBarStates1_def v world_at_def)
qed

text \<open>
  The claim C3 as stated, for every pixel count, fails where the count is not a multiple of
  8: the call then divides by a zero section size (5 pixels) or reads \<^verbatim>\<open>sectionColor\<close>
  beyond its last entry (17 pixels, pixel 16 of row 0), which is undefined in C++; the model
  faults before the first flush. What the call does there is left out of the amended claim;
  it is the defect of C2.
\<close>

theorem PoliceLightBar_faults_off_multiples_of_8:
  "GetActive event_on \<and>
   PoliceLightBar_Draw strip5 event_on (world_at 0) = Some (Inl DivisionByZero) \<and>
   PoliceLightBar_Draw strip17 event_on (world_at 0) = Some (Inl IndexOutOfBounds)"
  by (simp add: PoliceLightBar_Draw_def GetActive_def event_on_def strip5_def strip17_def strip8_def
      PoliceBarStates1_def iSection_def police_pixels.simps)

text \<open>
  C2 does not hold of the code: the section index is \<^verbatim>\<open>i / sectionSize\<close> with no clamp.
  On a strip of 17 usable pixels the section size is 2 and pixel 16, a usable pixel, has
  section index 8, beyond the last entry of \<^verbatim>\<open>sectionColor\<close>; the call reads outside the
  array in its first row.
\<close>

theorem PoliceLightBar_section_index_overrun:
  "uint (16 :: 16 word) < int (NUMBER_USED_PIXELS strip17) \<and>
   iSection (NUMBER_USED_PIXELS strip17 div 8) 16 = 8 \<and>
   PoliceLightBar_Draw strip17 event_on (world_at 0) = Some (Inl IndexOutOfBounds)"
  by (simp add: PoliceLightBar_Draw_def GetActive_def event_on_def strip17_def strip8_def
      PoliceBarStates1_def iSection_def police_pixels.simps)

end
